theory Spec2Isabelle
  imports Main "HOL-Library.Sublist" "HOL-Library.AList"
begin

section \<open>Strings\<close>

text \<open>
  A Go string is a sequence of bytes; \<^typ>\<open>string\<close> is a list of 8-bit characters.
  The functions of package \<^verbatim>\<open>strings\<close> that the backend calls are modelled on bytes,
  with the results the Go documentation gives them.
\<close>

abbreviation bslash :: char where
  "bslash \<equiv> CHR 0x5C"

abbreviation dquote :: char where
  "dquote \<equiv> CHR 0x22"

text \<open>\<^verbatim>\<open>strings.Index\<close>: the index of the first instance of \<open>sub\<close>, or \<open>-1\<close>.\<close>

fun Index :: "string \<Rightarrow> string \<Rightarrow> int" where
  "Index [] sub = (if sub = [] then 0 else - 1)"
| "Index (c # cs) sub =
     (if prefix sub (c # cs) then 0
      else (let i = Index cs sub in if i < 0 then - 1 else i + 1))"

text \<open>\<^verbatim>\<open>strings.LastIndex\<close>: the index of the last instance of \<open>sub\<close>, or \<open>-1\<close>.\<close>

fun LastIndex :: "string \<Rightarrow> string \<Rightarrow> int" where
  "LastIndex [] sub = (if sub = [] then 0 else - 1)"
| "LastIndex (c # cs) sub =
     (let i = LastIndex cs sub in
      if 0 \<le> i then i + 1 else if prefix sub (c # cs) then 0 else - 1)"

text \<open>\<^verbatim>\<open>strings.Contains(s, sub)\<close> is \<^verbatim>\<open>Index(s, sub) >= 0\<close>.\<close>

definition Contains :: "string \<Rightarrow> string \<Rightarrow> bool" where
  "Contains s sub = (0 \<le> Index s sub)"

definition HasPrefix :: "string \<Rightarrow> string \<Rightarrow> bool" where
  "HasPrefix s p = prefix p s"

definition TrimPrefix :: "string \<Rightarrow> string \<Rightarrow> string" where
  "TrimPrefix s p = (if HasPrefix s p then drop (length p) s else s)"

text \<open>
  \<^verbatim>\<open>strings.ReplaceAll(s, old, new)\<close> replaces the non-overlapping instances of \<open>old\<close>,
  scanning from the left. Every call in the backend has a non-empty \<open>old\<close>; for an empty
  \<open>old\<close> (where Go inserts \<open>new\<close> around every character) the model returns \<open>s\<close>.
\<close>

function ReplaceAll :: "string \<Rightarrow> string \<Rightarrow> string \<Rightarrow> string" where
  "ReplaceAll s old new =
     (if old = [] then s
      else if prefix old s then new @ ReplaceAll (drop (length old) s) old new
      else (case s of [] \<Rightarrow> [] | c # cs \<Rightarrow> c # ReplaceAll cs old new))"
  by pat_completeness auto
termination
  by (relation "measure (\<lambda>(s, old, new). length s)") (auto simp: prefix_def)

declare ReplaceAll.simps [simp del]

section \<open>The response sanitizer\<close>

text \<open>
  \<^verbatim>\<open>cleanAIResponse\<close> (the variant of the backend that cleans the model's reply): cut
  what precedes the first \<open>{\<close> and what follows the last \<open>}\<close>, then apply eight textual
  replacements in the order of the source.
\<close>

definition cleanAIResponse :: "string \<Rightarrow> string" where
  "cleanAIResponse response =
     (let startIndex = Index response ''{'';
          r1 = (if startIndex > 0 then drop (nat startIndex) response else response);
          lastIndex = LastIndex r1 ''}'';
          r2 = (if lastIndex > 0 \<and> lastIndex < int (length r1) - 1
                then take (nat (lastIndex + 1)) r1 else r1);
          r3 = ReplaceAll r2 (bslash # ''u003c'') ''<'';
          r4 = ReplaceAll r3 (bslash # ''u003e'') ''>'';
          r5 = ReplaceAll r4 (bslash # ''u0026'') ''&'';
          r6 = ReplaceAll r5 (bslash # ''u0027'') [CHR 0x27];
          r7 = ReplaceAll r6 (bslash # ''u0022'') [dquote];
          r8 = ReplaceAll r7 (bslash # ''un'') (bslash # ''n'');
          r9 = ReplaceAll r8 '');n}'' '');}'';
          r10 = ReplaceAll r9 (bslash # ''n}'') ''}''
      in r10)"

section \<open>Paths\<close>

text \<open>
  \<^verbatim>\<open>path/filepath\<close> on a Unix system. A path that \<^verbatim>\<open>filepath.Clean\<close> has returned is
  represented by the list of its elements: \<open>../frontend/src/App.tsx\<close> is
  \<open>[''..'', ''frontend'', ''src'', ''App.tsx'']\<close> and \<open>.\<close> is the empty list. A rooted path
  starts with the element \<open>/\<close>.
\<close>

type_synonym path = "string list"

fun split_slash :: "string \<Rightarrow> string list" where
  "split_slash [] = [[]]"
| "split_slash (c # cs) =
     (if c = CHR ''/'' then [] # split_slash cs
      else (case split_slash cs of [] \<Rightarrow> [[c]] | e # es \<Rightarrow> (c # e) # es))"

text \<open>
  The rules of \<^verbatim>\<open>Clean\<close>: empty elements and \<open>.\<close> are dropped; an inner \<open>..\<close> removes the
  element before it; a \<open>..\<close> with nothing to remove stays in a relative path and is
  dropped in a rooted one. \<open>acc\<close> is the output so far, last element first.
\<close>

fun clean_elems :: "bool \<Rightarrow> path \<Rightarrow> string list \<Rightarrow> path" where
  "clean_elems rooted acc [] = rev acc"
| "clean_elems rooted acc (e # es) =
     (if e = [] \<or> e = ''.'' then clean_elems rooted acc es
      else if e = ''..'' then
        (case acc of
           [] \<Rightarrow> clean_elems rooted (if rooted then [] else [''..'']) es
         | t # ts \<Rightarrow>
             if t = ''..'' then clean_elems rooted (''..'' # acc) es
             else clean_elems rooted ts es)
      else clean_elems rooted (e # acc) es)"

definition Clean :: "string \<Rightarrow> path" where
  "Clean s =
     (let rooted = HasPrefix s ''/''
      in (if rooted then [''/''] else []) @ clean_elems rooted [] (split_slash s))"

fun join_slash :: "string list \<Rightarrow> string" where
  "join_slash [] = []"
| "join_slash [e] = e"
| "join_slash (e # es) = e @ ''/'' @ join_slash es"

text \<open>
  \<^verbatim>\<open>filepath.Join\<close> skips the leading empty arguments, joins the rest with a slash and
  cleans the result. (When every argument is empty Go returns the empty string; the
  backend always passes the non-empty \<^verbatim>\<open>projectRoot\<close> first.)
\<close>

definition Join :: "string list \<Rightarrow> path" where
  "Join elem =
     (case dropWhile (\<lambda>e. e = []) elem of
        [] \<Rightarrow> []
      | es \<Rightarrow> Clean (join_slash es))"

text \<open>\<^verbatim>\<open>filepath.Dir\<close> of a cleaned path: all but the last element.\<close>

definition Dir :: "path \<Rightarrow> path" where
  "Dir p = (if p = [''/''] then p else butlast p)"

definition projectRoot :: string where
  "projectRoot = ''../frontend/src''"

section \<open>The file system\<close>

text \<open>
  The disk is a finite table from cleaned paths to nodes. Paths are resolved lexically
  (no symbolic links, and two different cleaned paths are two different files). The
  operations of package \<^verbatim>\<open>os\<close> fail as Go on Linux does where the path and the table
  decide it: a NUL byte in the path (\<open>EINVAL\<close>, found by Go before the system call), a
  path of more than 4095 bytes or a name of more than 255 bytes (\<open>ENAMETOOLONG\<close>), a
  missing directory (\<open>ENOENT\<close>), a regular file in the place of a directory (\<open>ENOTDIR\<close>).
  Failures that neither the path nor the table decides (permissions, a full disk) are
  outside the model.
\<close>

datatype node = RegularFile string | Directory

datatype errno = ENOENT | ENOTDIR | EISDIR | ENOTEMPTY | EINVAL | ENAMETOOLONG | EEXIST

type_synonym disk = "(path \<times> node) list"

definition stat :: "disk \<Rightarrow> path \<Rightarrow> node option" where
  "stat d p = (if p = [] then Some Directory else map_of d p)"

definition has_nul :: "path \<Rightarrow> bool" where
  "has_nul p = list_ex (\<lambda>e. CHR 0x00 \<in> set e) p"

text \<open>The text of a cleaned path, as it is handed to the system call.\<close>

fun path_string :: "path \<Rightarrow> string" where
  "path_string [] = ''.''"
| "path_string (e # es) = (if e = ''/'' then ''/'' @ join_slash es else join_slash (e # es))"

definition path_too_long :: "path \<Rightarrow> bool" where
  "path_too_long p = (4095 < length (path_string p))"

definition name_too_long :: "string \<Rightarrow> bool" where
  "name_too_long e = (255 < length e)"

text \<open>
  The walk of the kernel along a path, from the directory \<open>here\<close>: every element but
  the last must lead to a directory, and a name is looked up only if it is not too long.
\<close>

fun walk :: "disk \<Rightarrow> path \<Rightarrow> string list \<Rightarrow> errno + node" where
  "walk d here [] = (case stat d here of None \<Rightarrow> Inl ENOENT | Some n \<Rightarrow> Inr n)"
| "walk d here (e # es) =
     (case stat d here of
        None \<Rightarrow> Inl ENOENT
      | Some (RegularFile c) \<Rightarrow> Inl ENOTDIR
      | Some Directory \<Rightarrow>
          if name_too_long e then Inl ENAMETOOLONG else walk d (here @ [e]) es)"

text \<open>\<^verbatim>\<open>os.Lstat\<close> (and \<^verbatim>\<open>os.Stat\<close>, there being no links).\<close>

definition os_Lstat :: "disk \<Rightarrow> path \<Rightarrow> errno + node" where
  "os_Lstat d p =
     (if has_nul p then Inl EINVAL
      else if path_too_long p then Inl ENAMETOOLONG
      else walk d [] p)"

text \<open>\<^verbatim>\<open>os.IsNotExist\<close> holds of \<open>ENOENT\<close> only.\<close>

definition IsNotExist :: "errno \<Rightarrow> bool" where
  "IsNotExist e = (e = ENOENT)"

text \<open>\<^verbatim>\<open>os.Mkdir\<close> makes one directory, in a directory that exists.\<close>

definition os_Mkdir :: "disk \<Rightarrow> path \<Rightarrow> errno + disk" where
  "os_Mkdir d p =
     (case os_Lstat d p of
        Inr n \<Rightarrow> Inl EEXIST
      | Inl e \<Rightarrow>
          if e \<noteq> ENOENT then Inl e
          else (case os_Lstat d (butlast p) of
                  Inr Directory \<Rightarrow> Inr (AList.update p Directory d)
                | Inr (RegularFile c) \<Rightarrow> Inl ENOTDIR
                | Inl e' \<Rightarrow> Inl ENOENT))"

text \<open>
  \<^verbatim>\<open>os.MkdirAll\<close>, as Go writes it: nothing to do when the path is a directory, an error
  when it is a file; otherwise make the parent with \<^verbatim>\<open>MkdirAll\<close>, then the directory
  itself with \<^verbatim>\<open>Mkdir\<close>, whose error is returned unless the directory is there after
  all. The directories made before an error stay on the disk.
\<close>

function os_MkdirAll :: "disk \<Rightarrow> path \<Rightarrow> disk \<times> errno option" where
  "os_MkdirAll d p =
     (case os_Lstat d p of
        Inr Directory \<Rightarrow> (d, None)
      | Inr (RegularFile c) \<Rightarrow> (d, Some ENOTDIR)
      | Inl e \<Rightarrow>
          (case os_MkdirAll d (butlast p) of
             (d1, Some e1) \<Rightarrow> (d1, Some e1)
           | (d1, None) \<Rightarrow>
               (case os_Mkdir d1 p of
                  Inr d2 \<Rightarrow> (d2, None)
                | Inl e2 \<Rightarrow>
                    (case os_Lstat d1 p of
                       Inr Directory \<Rightarrow> (d1, None)
                     | Inr (RegularFile c) \<Rightarrow> (d1, Some e2)
                     | Inl e3 \<Rightarrow> (d1, Some e2)))))"
  by pat_completeness auto
termination
proof (relation "measure (\<lambda>(d, p). length p)")
  show "wf (measure (\<lambda>(d, p). length p))" by simp
next
  fix d :: disk and p :: path and e :: errno
  assume "os_Lstat d p = Inl e"
  then have "p \<noteq> []"
    by (auto simp: os_Lstat_def has_nul_def path_too_long_def stat_def)
  then show "((d, butlast p), (d, p)) \<in> measure (\<lambda>(d, p). length p)"
    by simp
qed

declare os_MkdirAll.simps [simp del]

text \<open>
  \<^verbatim>\<open>ioutil.WriteFile\<close> opens with create and truncate: it replaces a regular file,
  creates a missing one in an existing directory, and fails on a directory.
\<close>

definition os_WriteFile :: "disk \<Rightarrow> path \<Rightarrow> string \<Rightarrow> errno + disk" where
  "os_WriteFile d p content =
     (case os_Lstat d p of
        Inr Directory \<Rightarrow> Inl EISDIR
      | Inr (RegularFile c) \<Rightarrow> Inr (AList.update p (RegularFile content) d)
      | Inl e \<Rightarrow>
          if e \<noteq> ENOENT then Inl e
          else (case os_Lstat d (butlast p) of
                  Inr Directory \<Rightarrow> Inr (AList.update p (RegularFile content) d)
                | Inr (RegularFile c) \<Rightarrow> Inl ENOTDIR
                | Inl e' \<Rightarrow> Inl ENOENT))"

definition has_children :: "disk \<Rightarrow> path \<Rightarrow> bool" where
  "has_children d p = list_ex (\<lambda>(q, n). prefix p q \<and> q \<noteq> p) d"

text \<open>
  \<^verbatim>\<open>os.Remove\<close> removes a file or an empty directory; its error is that of the walk to
  the target when the target cannot be reached.
\<close>

definition os_Remove :: "disk \<Rightarrow> path \<Rightarrow> errno + disk" where
  "os_Remove d p =
     (if p = [] then Inl EINVAL
      else (case os_Lstat d p of
              Inl e \<Rightarrow> Inl e
            | Inr (RegularFile c) \<Rightarrow> Inr (AList.delete p d)
            | Inr Directory \<Rightarrow>
                if has_children d p then Inl ENOTEMPTY else Inr (AList.delete p d)))"

section \<open>Edit actions and their application\<close>

text \<open>
  An element of \<^verbatim>\<open>AIEditActions.Actions\<close>: the three string fields of the Go struct. A
  field the JSON leaves out is the empty string.
\<close>

record action =
  Type :: string
  Path :: string
  Content :: string

record AIEditActions =
  Actions :: "action list"

text \<open>
  What the server does that can be observed: calls of package \<^verbatim>\<open>os\<close> and the lines
  written with package \<^verbatim>\<open>log\<close>, as values that carry what the line prints.
  (What the second listing of main.go also prints with \<^verbatim>\<open>fmt\<close> is left out.)
\<close>

datatype call =
    CallMkdirAll path
  | CallWriteFile path string
  | CallRemove path

datatype log_entry =
    LogApplying nat
  | LogNormalized string string
  | LogSkipSidePanel string
  | LogSkipDangerous string
  | LogWrote string path string
  | LogDeleted path string
  | LogUnknownType string
  | LogParseFailed string string string
  | LogSuggested nat
  | LogNoActions
  | LogTooMany
  | LogLarge

record world =
  disk :: disk
  calls :: "call list"
  logs :: "log_entry list"

definition log_Printf :: "log_entry \<Rightarrow> world \<Rightarrow> world" where
  "log_Printf l w = w\<lparr>logs := logs w @ [l]\<rparr>"

definition MkdirAll :: "path \<Rightarrow> world \<Rightarrow> world \<times> errno option" where
  "MkdirAll p w =
     (let w' = w\<lparr>calls := calls w @ [CallMkdirAll p]\<rparr>
      in case os_MkdirAll (disk w) p of
           (d, r) \<Rightarrow> (w'\<lparr>disk := d\<rparr>, r))"

definition WriteFile :: "path \<Rightarrow> string \<Rightarrow> world \<Rightarrow> world \<times> errno option" where
  "WriteFile p content w =
     (let w' = w\<lparr>calls := calls w @ [CallWriteFile p content]\<rparr>
      in case os_WriteFile (disk w) p content of
           Inl e \<Rightarrow> (w', Some e)
         | Inr d \<Rightarrow> (w'\<lparr>disk := d\<rparr>, None))"

definition Remove :: "path \<Rightarrow> world \<Rightarrow> world \<times> errno option" where
  "Remove p w =
     (let w' = w\<lparr>calls := calls w @ [CallRemove p]\<rparr>
      in case os_Remove (disk w) p of
           Inl e \<Rightarrow> (w', Some e)
         | Inr d \<Rightarrow> (w'\<lparr>disk := d\<rparr>, None))"

text \<open>
  The \<^verbatim>\<open>switch act.Type\<close> of \<^verbatim>\<open>applyEdits\<close>, the same statement in the three listings
  of the backend (the older two print the log lines without the original path). The
  result is the error that \<^verbatim>\<open>applyEdits\<close> returns at once, or \<open>None\<close> when the loop goes
  on.
\<close>

definition switchType :: "action \<Rightarrow> path \<Rightarrow> world \<Rightarrow> world \<times> errno option" where
  "switchType act fullPath w =
     (if Type act = ''create'' \<or> Type act = ''update'' then
        (case MkdirAll (Dir fullPath) w of
           (w1, Some e) \<Rightarrow> (w1, Some e)
         | (w1, None) \<Rightarrow>
             (case WriteFile fullPath (Content act) w1 of
                (w2, Some e) \<Rightarrow> (w2, Some e)
              | (w2, None) \<Rightarrow> (log_Printf (LogWrote (Type act) fullPath (Path act)) w2, None)))
      else if Type act = ''delete'' then
        (case Remove fullPath w of
           (w1, Some e) \<Rightarrow>
             if \<not> IsNotExist e then (w1, Some e)
             else (log_Printf (LogDeleted fullPath (Path act)) w1, None)
         | (w1, None) \<Rightarrow> (log_Printf (LogDeleted fullPath (Path act)) w1, None))
      else (log_Printf (LogUnknownType (Type act)) w, None))"

text \<open>The \<^verbatim>\<open>for _, act := range edits.Actions\<close> loop: it stops at the first error.\<close>

fun range_actions ::
  "(action \<Rightarrow> world \<Rightarrow> world \<times> errno option) \<Rightarrow> action list \<Rightarrow> world \<Rightarrow> world \<times> errno option"
where
  "range_actions body [] w = (w, None)"
| "range_actions body (act # rest) w =
     (case body act w of
        (w', Some e) \<Rightarrow> (w', Some e)
      | (w', None) \<Rightarrow> range_actions body rest w')"

subsection \<open>The listing with path normalization\<close>

text \<open>
  \<^verbatim>\<open>applyEdits\<close> of the listing that cleans the reply. It calls \<^verbatim>\<open>normalizePath\<close>, whose
  body is in none of the source files: the function is a parameter of the model, and
  what is proved of \<^verbatim>\<open>applyEdits\<close> holds for every \<^verbatim>\<open>normalizePath\<close>.
\<close>

definition applyEdits_body :: "(string \<Rightarrow> string) \<Rightarrow> action \<Rightarrow> world \<Rightarrow> world \<times> errno option" where
  "applyEdits_body normalizePath act w =
     (let normalizedPath = normalizePath (Path act);
          w1 = (if normalizedPath \<noteq> Path act
                then log_Printf (LogNormalized (Path act) normalizedPath) w else w)
      in if Contains normalizedPath ''SidePanel'' then
           (log_Printf (LogSkipSidePanel normalizedPath) w1, None)
         else if Contains normalizedPath ''..'' \<or> HasPrefix normalizedPath ''/'' then
           (log_Printf (LogSkipDangerous normalizedPath) w1, None)
         else
           switchType act (Join [projectRoot, TrimPrefix normalizedPath ''src/'']) w1)"

definition applyEdits ::
  "(string \<Rightarrow> string) \<Rightarrow> AIEditActions \<Rightarrow> world \<Rightarrow> world \<times> errno option" where
  "applyEdits normalizePath edits w =
     range_actions (applyEdits_body normalizePath) (Actions edits)
       (log_Printf (LogApplying (length (Actions edits))) w)"

subsection \<open>The first listing of main.go\<close>

definition applyEdits_main_body :: "action \<Rightarrow> world \<Rightarrow> world \<times> errno option" where
  "applyEdits_main_body act w =
     (if Contains (Path act) ''SidePanel'' then
        (log_Printf (LogSkipSidePanel (Path act)) w, None)
      else switchType act (Join [projectRoot, Path act]) w)"

definition applyEdits_main :: "AIEditActions \<Rightarrow> world \<Rightarrow> world \<times> errno option" where
  "applyEdits_main edits w =
     range_actions applyEdits_main_body (Actions edits)
       (log_Printf (LogApplying (length (Actions edits))) w)"

subsection \<open>The second listing of main.go\<close>

definition applyEdits_main2_body :: "action \<Rightarrow> world \<Rightarrow> world \<times> errno option" where
  "applyEdits_main2_body act w = switchType act (Join [projectRoot, ''..'', Path act]) w"

definition applyEdits_main2 :: "AIEditActions \<Rightarrow> world \<Rightarrow> world \<times> errno option" where
  "applyEdits_main2 edits w = range_actions applyEdits_main2_body (Actions edits) w"

section \<open>Serving one edit request\<close>

text \<open>
  The collaborators of \<^verbatim>\<open>handleEdit\<close> are given by their outcome for the request at
  hand: the HTTP method, the decoded body, the gathered context and what the completion
  provider sent back (\<open>Inl\<close> carries the text of an error). \<^verbatim>\<open>json.Unmarshal\<close> into
  \<^verbatim>\<open>AIEditActions\<close> is a parameter \<open>unmarshal\<close>.
\<close>

record EditRequest =
  Instructions :: string
  Provider :: string
  Model :: string

record 'a exchange =
  reqMethod :: string
  reqBody :: "string + EditRequest"
  contextJSON :: "string + string"
  upstream :: "string + 'a"

datatype failure =
    Text string
  | InvalidProvider
  | IOError errno
  | ParseFailure string string

datatype response =
    HttpError nat failure
  | Success nat
  | SuccessStatusOnly

subsection \<open>The listing with path normalization\<close>

text \<open>Both provider functions return the cleaned text of the model's reply.\<close>

definition callOpenRouter :: "string + string \<Rightarrow> string + string" where
  "callOpenRouter up = (case up of Inl e \<Rightarrow> Inl e | Inr content \<Rightarrow> Inr (cleanAIResponse content))"

definition callOllama :: "string + string \<Rightarrow> string + string" where
  "callOllama up = (case up of Inl e \<Rightarrow> Inl e | Inr content \<Rightarrow> Inr (cleanAIResponse content))"

definition handleEdit ::
  "(string \<Rightarrow> string) \<Rightarrow> (string \<Rightarrow> string + AIEditActions) \<Rightarrow> string exchange \<Rightarrow> world
     \<Rightarrow> world \<times> response" where
  "handleEdit normalizePath unmarshal x w =
     (if reqMethod x \<noteq> ''POST'' then (w, HttpError 405 (Text ''Only POST allowed''))
      else case reqBody x of
        Inl e \<Rightarrow> (w, HttpError 400 (Text e))
      | Inr req \<Rightarrow>
     (case contextJSON x of
        Inl e \<Rightarrow> (w, HttpError 500 (Text e))
      | Inr ctx \<Rightarrow>
     (case (if Provider req = ''openrouter'' then Some (callOpenRouter (upstream x))
            else if Provider req = ''ollama'' then Some (callOllama (upstream x))
            else None) of
        None \<Rightarrow> (w, HttpError 400 InvalidProvider)
      | Some (Inl parseErr) \<Rightarrow> (w, HttpError 500 (Text parseErr))
      | Some (Inr aiResponse) \<Rightarrow>
     (let cleanedResponse = cleanAIResponse aiResponse
      in case unmarshal cleanedResponse of
        Inl err \<Rightarrow>
          (log_Printf (LogParseFailed err aiResponse cleanedResponse) w,
           HttpError 500 (ParseFailure err aiResponse))
      | Inr edits \<Rightarrow>
     (case applyEdits normalizePath edits w of
        (w', Some err) \<Rightarrow> (w', HttpError 500 (IOError err))
      | (w', None) \<Rightarrow> (w', Success (length (Actions edits))))))))"

subsection \<open>The second listing of main.go\<close>

text \<open>
  \<^verbatim>\<open>callOllama\<close> of the second listing decodes the actions itself. \<open>decoded\<close> is the
  outcome of the request to the provider up to and including \<^verbatim>\<open>json.Unmarshal\<close> of
  the message content; the model is the rest of the function.
\<close>

definition callOllama_main2 ::
  "string + AIEditActions \<Rightarrow> world \<Rightarrow> world \<times> (string + AIEditActions)" where
  "callOllama_main2 decoded w =
     (case decoded of
        Inl e \<Rightarrow> (w, Inl e)
      | Inr edits \<Rightarrow>
     (let w1 = log_Printf (LogSuggested (length (Actions edits))) w
      in if length (Actions edits) = 0 then
           (log_Printf LogNoActions w1, Inl ''no actions returned by AI'')
         else
     (let (w2, edits2) =
            (if length (Actions edits) > 100 then
               (log_Printf LogTooMany w1, edits\<lparr>Actions := take 100 (Actions edits)\<rparr>)
             else if length (Actions edits) > 50 then (log_Printf LogLarge w1, edits)
             else (w1, edits))
      in if length (Actions edits2) = 0 then
           (log_Printf LogNoActions w2, Inl ''no actions returned by AI'')
         else (w2, Inr edits2))))"

definition handleEdit_main2 :: "AIEditActions exchange \<Rightarrow> world \<Rightarrow> world \<times> response" where
  "handleEdit_main2 x w =
     (if reqMethod x \<noteq> ''POST'' then (w, HttpError 405 (Text ''Only POST allowed''))
      else case reqBody x of
        Inl e \<Rightarrow> (w, HttpError 400 (Text e))
      | Inr req \<Rightarrow>
     (case contextJSON x of
        Inl e \<Rightarrow> (w, HttpError 500 (Text e))
      | Inr ctx \<Rightarrow>
     (case callOllama_main2 (upstream x) w of
        (w1, Inl err) \<Rightarrow> (w1, HttpError 500 (Text err))
      | (w1, Inr ollamaResp) \<Rightarrow>
     (case applyEdits_main2 ollamaResp w1 of
        (w2, Some err) \<Rightarrow> (w2, HttpError 500 (IOError err))
      | (w2, None) \<Rightarrow> (w2, SuccessStatusOnly)))))"

section \<open>Notions used to state the properties\<close>

text \<open>The eight texts that \<^verbatim>\<open>cleanAIResponse\<close> looks for, in the order of its replacements.\<close>

definition fixup_patterns :: "string list" where
  "fixup_patterns =
     [bslash # ''u003c'', bslash # ''u003e'', bslash # ''u0026'', bslash # ''u0027'',
      bslash # ''u0022'', bslash # ''un'', '');n}'', bslash # ''n}'']"

text \<open>
  The JSON text of a batch, in the format that the prompt of \<^verbatim>\<open>buildPrompt\<close> asks the
  model for: one object with the field \<open>actions\<close>, each action an object with \<open>type\<close>,
  \<open>path\<close> and \<open>content\<close>. In a string the double quote, the backslash and the line feed
  are escaped; the other characters are copied, which is right for printable ASCII.
\<close>

fun json_escape :: "string \<Rightarrow> string" where
  "json_escape [] = []"
| "json_escape (c # cs) =
     (if c = dquote then [bslash, dquote]
      else if c = bslash then [bslash, bslash]
      else if c = CHR 0x0A then [bslash, CHR ''n'']
      else [c]) @ json_escape cs"

definition json_string :: "string \<Rightarrow> string" where
  "json_string s = dquote # json_escape s @ [dquote]"

definition json_action :: "action \<Rightarrow> string" where
  "json_action a =
     ''{'' @ json_string ''type'' @ '':'' @ json_string (Type a) @ '','' @
     json_string ''path'' @ '':'' @ json_string (Path a) @ '','' @
     json_string ''content'' @ '':'' @ json_string (Content a) @ ''}''"

fun join_comma :: "string list \<Rightarrow> string" where
  "join_comma [] = []"
| "join_comma [e] = e"
| "join_comma (e # es) = e @ '','' @ join_comma es"

definition json_actions :: "AIEditActions \<Rightarrow> string" where
  "json_actions edits =
     ''{'' @ json_string ''actions'' @ '':['' @ join_comma (map json_action (Actions edits)) @ '']}''"

text \<open>
  Notions of the table: the directories above a path, a regular file at a path, and a
  path all of whose names the system accepts.
\<close>

definition ancestors :: "path \<Rightarrow> path list" where
  "ancestors p = butlast (prefixes p)"

definition is_file :: "disk \<Rightarrow> path \<Rightarrow> bool" where
  "is_file d p = (case stat d p of Some (RegularFile c) \<Rightarrow> True | _ \<Rightarrow> False)"

definition names_valid :: "path \<Rightarrow> bool" where
  "names_valid p = (\<not> has_nul p \<and> \<not> path_too_long p \<and> \<not> list_ex name_too_long p)"

text \<open>A cleaned path lies in the project when it is the project root or below it.\<close>

definition inside_root :: "path \<Rightarrow> bool" where
  "inside_root p = prefix (Clean projectRoot) p"

text \<open>
  The calls that stay in the project: writing or removing a path inside the root, and
  making a directory inside the root or the directory that holds the root.
\<close>

fun call_inside_root :: "call \<Rightarrow> bool" where
  "call_inside_root (CallMkdirAll p) = (inside_root p \<or> p = Dir (Clean projectRoot))"
| "call_inside_root (CallWriteFile p content) = inside_root p"
| "call_inside_root (CallRemove p) = inside_root p"

text \<open>
  Modelled from the spec: \<^verbatim>\<open>normalizePath\<close>, which \<^verbatim>\<open>applyEdits\<close> calls on every path and
  whose body is in none of the source files. The spec (4.3, rule 3) has the normalizer
  ``strip any redundant leading segment that duplicates the project's own root folder
  name'': while the path starts with the root folder name \<open>src\<close> twice, the first of the
  two segments is dropped. (\<^verbatim>\<open>applyEdits\<close> itself then trims one leading \<open>src/\<close>.)
\<close>

function normalizePath_spec :: "string \<Rightarrow> string" where
  "normalizePath_spec p =
     (if HasPrefix p ''src/src/'' then normalizePath_spec (drop 4 p) else p)"
  by pat_completeness auto
termination
  by (relation "measure length") (auto simp: HasPrefix_def prefix_def)

declare normalizePath_spec.simps [simp del]

text \<open>
  A small project on disk, for the examples: the root directory, the directory
  \<open>components\<close> with the protected file \<open>SidePanel.tsx\<close>, and \<open>App.tsx\<close>.
\<close>

definition sidepanel_file :: path where
  "sidepanel_file = [''..'', ''frontend'', ''src'', ''components'', ''SidePanel.tsx'']"

definition sample_disk :: disk where
  "sample_disk =
     [([''..''], Directory),
      ([''..'', ''frontend''], Directory),
      ([''..'', ''frontend'', ''src''], Directory),
      ([''..'', ''frontend'', ''src'', ''components''], Directory),
      (sidepanel_file, RegularFile ''panel''),
      ([''..'', ''frontend'', ''src'', ''App.tsx''], RegularFile ''app'')]"

definition sample_world :: world where
  "sample_world = \<lparr>disk = sample_disk, calls = [], logs = []\<rparr>"

text \<open>Two runs have the same effect: the same disk, the same calls, the same error.\<close>

definition same_effect :: "world \<times> errno option \<Rightarrow> world \<times> errno option \<Rightarrow> bool" where
  "same_effect r1 r2 =
     (disk (fst r1) = disk (fst r2) \<and> calls (fst r1) = calls (fst r2) \<and> snd r1 = snd r2)"


section \<open>Facts about the string functions\<close>

lemma Index_ge: "- 1 \<le> Index s sub"
  by (induction s) (auto simp: Let_def)

lemma Contains_Nil: "Contains [] sub \<longleftrightarrow> sub = []"
  by (simp add: Contains_def)

lemma Contains_Cons: "Contains (c # cs) sub \<longleftrightarrow> prefix sub (c # cs) \<or> Contains cs sub"
  using Index_ge [of cs sub] by (auto simp: Contains_def Let_def)

text \<open>\<^verbatim>\<open>strings.Contains\<close> is the contiguous-sublist relation of the list library.\<close>

lemma Contains_sublist: "Contains s sub \<longleftrightarrow> sublist sub s"
  by (induction s) (auto simp: Contains_Nil Contains_Cons sublist_Cons_right)

lemma ReplaceAll_absent: "\<not> Contains s old \<Longrightarrow> ReplaceAll s old new = s"
proof (induction s)
  case Nil
  then show ?case by (simp add: ReplaceAll.simps Contains_Nil)
next
  case (Cons c cs)
  then have "\<not> prefix old (c # cs)" and "\<not> Contains cs old"
    by (simp_all add: Contains_Cons)
  with Cons.IH show ?case
    by (subst ReplaceAll.simps) simp
qed

lemma Index_hd: "s \<noteq> [] \<Longrightarrow> hd s = c \<Longrightarrow> Index s [c] = 0"
  by (cases s) auto

lemma LastIndex_snoc: "LastIndex (xs @ [c]) [c] = int (length xs)"
  by (induction xs) (auto simp: Let_def)

lemma LastIndex_last: "s \<noteq> [] \<Longrightarrow> last s = c \<Longrightarrow> LastIndex s [c] = int (length s) - 1"
  using LastIndex_snoc [of "butlast s" c] by (cases s rule: rev_cases) auto

section \<open>Facts about paths\<close>

lemma Contains_trans: "Contains e sub \<Longrightarrow> sublist e s \<Longrightarrow> Contains s sub"
  unfolding Contains_sublist by (rule sublist_order.order_trans)

lemma Contains_TrimPrefix: "Contains (TrimPrefix s p) sub \<Longrightarrow> Contains s sub"
  by (auto simp: TrimPrefix_def intro: Contains_trans split: if_splits)

lemma split_slash_ne [simp]: "split_slash s \<noteq> []"
  by (induction s) (auto split: list.splits)

lemma split_slash_append:
  "split_slash (a @ CHR ''/'' # b) = split_slash a @ split_slash b"
  by (induction a) (auto split: list.splits)

lemma hd_split_slash_prefix: "prefix (hd (split_slash s)) s"
  by (induction s) (auto split: list.splits)

lemma split_slash_sublist: "e \<in> set (split_slash s) \<Longrightarrow> sublist e s"
proof (induction s arbitrary: e)
  case Nil
  then show ?case by simp
next
  case (Cons c cs)
  show ?case
  proof (cases "c = CHR ''/''")
    case True
    with Cons show ?thesis by (auto simp: sublist_Cons_right)
  next
    case False
    obtain e0 es where sp: "split_slash cs = e0 # es"
      by (cases "split_slash cs") auto
    with False Cons.prems have "e = c # e0 \<or> e \<in> set es" by auto
    then show ?thesis
    proof
      assume "e = c # e0"
      moreover have "prefix e0 cs" using hd_split_slash_prefix [of cs] sp by simp
      ultimately show ?thesis by (simp add: sublist_Cons_right)
    next
      assume "e \<in> set es"
      then have "sublist e cs" using Cons.IH sp by simp
      then show ?thesis by (simp add: sublist_Cons_right)
    qed
  qed
qed

lemma set_clean_elems:
  "set (clean_elems rooted acc es) \<subseteq> set acc \<union> set es \<union> {''..''}"
  by (induction rooted acc es rule: clean_elems.induct) (auto split: list.splits if_splits)

lemma clean_elems_no_dotdot:
  "''..'' \<notin> set es \<Longrightarrow>
   clean_elems rooted acc es = rev acc @ filter (\<lambda>e. e \<noteq> [] \<and> e \<noteq> ''.'') es"
  by (induction es arbitrary: acc) auto

lemma split_slash_projectRoot: "split_slash projectRoot = [''..'', ''frontend'', ''src'']"
  by (simp add: projectRoot_def)

lemma Clean_projectRoot: "Clean projectRoot = [''..'', ''frontend'', ''src'']"
  by (simp add: Clean_def HasPrefix_def projectRoot_def)

lemma Join_projectRoot:
  "Join [projectRoot, x] = clean_elems False [''src'', ''frontend'', ''..''] (split_slash x)"
proof -
  have "Join [projectRoot, x] = Clean (projectRoot @ CHR ''/'' # x)"
    by (cases x) (simp_all add: Join_def projectRoot_def)
  also have "\<dots> = clean_elems False [] (split_slash projectRoot @ split_slash x)"
    by (simp add: Clean_def HasPrefix_def split_slash_append) (simp add: projectRoot_def)
  also have "\<dots> = clean_elems False [''src'', ''frontend'', ''..''] (split_slash x)"
    by (simp add: split_slash_projectRoot)
  finally show ?thesis .
qed

lemma Join_projectRoot_inside:
  assumes "\<not> Contains x ''..''"
  shows "Join [projectRoot, x]
           = [''..'', ''frontend'', ''src''] @ filter (\<lambda>e. e \<noteq> [] \<and> e \<noteq> ''.'') (split_slash x)"
proof -
  have "''..'' \<notin> set (split_slash x)"
    using assms split_slash_sublist [of "''..''" x] by (auto simp: Contains_sublist)
  then show ?thesis
    by (simp add: Join_projectRoot clean_elems_no_dotdot)
qed

lemma Join_projectRoot_elems:
  assumes "e \<in> set (Join [projectRoot, x])" and "Contains e ''SidePanel''"
  shows "Contains x ''SidePanel''"
proof -
  from assms(1) have "e \<in> {''src'', ''frontend'', ''..''} \<union> set (split_slash x)"
    using set_clean_elems [of False "[''src'', ''frontend'', ''..'']" "split_slash x"]
    by (auto simp: Join_projectRoot)
  then show ?thesis
  proof
    assume "e \<in> {''src'', ''frontend'', ''..''}"
    with assms(2) show ?thesis by (auto simp: Contains_def)
  next
    assume "e \<in> set (split_slash x)"
    then have "sublist e x" by (rule split_slash_sublist)
    with assms(2) show ?thesis by (rule Contains_trans)
  qed
qed

text \<open>A path joined onto the project root starts with the \<open>..\<close> of the root.\<close>

lemma clean_elems_keeps_dotdot:
  "acc \<noteq> [] \<Longrightarrow> last acc = ''..'' \<Longrightarrow> \<exists>rest. clean_elems False acc es = ''..'' # rest"
proof (induction es arbitrary: acc)
  case Nil
  then show ?case
    by (cases acc rule: rev_cases) auto
next
  case (Cons e es)
  show ?case
  proof (cases "e = [] \<or> e = ''.''")
    case True
    with Cons show ?thesis by auto
  next
    case False
    show ?thesis
    proof (cases "e = ''..''")
      case False
      with \<open>\<not> (e = [] \<or> e = ''.'')\<close> Cons.IH [of "e # acc"] Cons.prems show ?thesis
        by auto
    next
      case True
      from Cons.prems obtain t ts where acc: "acc = t # ts" by (cases acc) auto
      show ?thesis
      proof (cases "t = ''..''")
        case True
        with \<open>e = ''..''\<close> acc Cons.IH [of "''..'' # acc"] Cons.prems show ?thesis
          by auto
      next
        case False
        with acc Cons.prems have "ts \<noteq> []" "last ts = ''..''"
          by (auto split: if_splits)
        with False \<open>e = ''..''\<close> acc Cons.IH [of ts] show ?thesis
          by auto
      qed
    qed
  qed
qed

lemma Join_projectRoot_dotdot: "\<exists>rest. Join [projectRoot, x] = ''..'' # rest"
  by (simp add: Join_projectRoot clean_elems_keeps_dotdot)

lemma Join_projectRoot_ne: "Join [projectRoot, x] \<noteq> []" "Join [projectRoot, x] \<noteq> [''/'']"
  using Join_projectRoot_dotdot [of x] by auto

section \<open>Facts about the file system\<close>

lemma stat_Nil [simp]: "stat d [] = Some Directory"
  by (simp add: stat_def)

lemma os_Lstat_Nil [simp]: "os_Lstat d [] = Inr Directory"
  by (simp add: os_Lstat_def has_nul_def path_too_long_def)

lemma stat_update:
  "stat (AList.update p n d) q =
     (if q = [] then Some Directory else if q = p then Some n else stat d q)"
  by (simp add: stat_def update_conv')

lemma stat_map_of: "map_of d' q = map_of d q \<Longrightarrow> stat d' q = stat d q"
  by (simp add: stat_def)

text \<open>The walk looks at the table only along the path.\<close>

lemma walk_cong:
  "(\<And>q. prefix q (here @ es) \<Longrightarrow> stat d' q = stat d q) \<Longrightarrow> walk d' here es = walk d here es"
proof (induction es arbitrary: here)
  case Nil
  then show ?case by simp
next
  case (Cons e es)
  have "stat d' here = stat d here" using Cons.prems by simp
  moreover have "walk d' (here @ [e]) es = walk d (here @ [e]) es"
    using Cons.prems by (intro Cons.IH) simp
  ultimately show ?case by (simp split: option.splits node.splits)
qed

lemma os_Lstat_cong:
  "(\<And>q. prefix q p \<Longrightarrow> stat d' q = stat d q) \<Longrightarrow> os_Lstat d' p = os_Lstat d p"
  using walk_cong [of "[]" p d' d] by (simp add: os_Lstat_def)

lemma walk_append:
  "walk d here (xs @ ys) =
     (case walk d here xs of Inl x \<Rightarrow> Inl x | Inr n \<Rightarrow> walk d (here @ xs) ys)"
proof (induction xs arbitrary: here)
  case Nil
  show ?case by (cases ys) (auto split: option.splits node.splits)
next
  case (Cons x xs)
  show ?case
    using Cons.IH [of "here @ [x]"] by (auto split: option.splits node.splits sum.splits)
qed

lemma walk_Inr_stat: "walk d here es = Inr n \<Longrightarrow> stat d (here @ es) = Some n"
proof (induction es arbitrary: here)
  case Nil
  then show ?case by (auto split: option.splits)
next
  case (Cons e es)
  from Cons.prems have "walk d (here @ [e]) es = Inr n"
    by (auto split: option.splits node.splits if_splits)
  from Cons.IH [OF this] show ?case by simp
qed

lemma prefixes_ancestors: "prefixes p = ancestors p @ [p]"
  unfolding ancestors_def
  using append_butlast_last_id [of "prefixes p"] by simp

lemma ancestors_butlast: "p \<noteq> [] \<Longrightarrow> ancestors p = prefixes (butlast p)"
  by (cases p rule: rev_cases) (simp_all add: ancestors_def)

lemma ancestors_Nil [simp]: "ancestors [] = []"
  by (simp add: ancestors_def)

lemma ancestors_snoc: "ancestors (q @ [e]) = ancestors q @ [q]"
  by (simp add: ancestors_butlast prefixes_ancestors)

lemma is_file_Nil [simp]: "\<not> is_file d []"
  by (simp add: is_file_def stat_def)

lemma is_file_iff: "is_file d p \<longleftrightarrow> (\<exists>c. stat d p = Some (RegularFile c))"
  by (auto simp: is_file_def split: option.splits node.splits)

lemma file_prefix_iff:
  "list_ex (is_file d) (prefixes p) \<longleftrightarrow> list_ex (is_file d) (ancestors p) \<or> is_file d p"
  by (simp add: prefixes_ancestors)

lemma has_nul_snoc: "has_nul (q @ [e]) \<longleftrightarrow> has_nul q \<or> CHR 0x00 \<in> set e"
  by (auto simp: has_nul_def list_ex_iff)

lemma join_slash_snoc: "ys \<noteq> [] \<Longrightarrow> join_slash (ys @ [e]) = join_slash ys @ ''/'' @ e"
  by (induction ys rule: join_slash.induct) auto

lemma length_join_slash_snoc: "length (join_slash ys) \<le> length (join_slash (ys @ [e]))"
  by (cases "ys = []") (simp_all add: join_slash_snoc)

lemma path_too_long_snoc: "path_too_long q \<Longrightarrow> path_too_long (q @ [e])"
proof (cases q)
  case Nil
  assume "path_too_long q"
  with Nil show ?thesis by (simp add: path_too_long_def)
next
  case (Cons x xs)
  assume "path_too_long q"
  with Cons show ?thesis
    using length_join_slash_snoc [of xs e] length_join_slash_snoc [of "x # xs" e]
    by (auto simp: path_too_long_def split: if_splits)
qed

lemma names_valid_snoc:
  "names_valid (q @ [e]) \<longleftrightarrow>
     names_valid q \<and> CHR 0x00 \<notin> set e \<and> \<not> name_too_long e \<and> \<not> path_too_long (q @ [e])"
  using path_too_long_snoc [of q e] by (auto simp: names_valid_def has_nul_snoc)

lemma names_valid_Nil [simp]: "names_valid []"
  by (simp add: names_valid_def has_nul_def path_too_long_def)

lemma names_valid_butlast: "names_valid p \<Longrightarrow> names_valid (butlast p)"
  by (cases p rule: rev_cases) (simp_all add: names_valid_snoc)

text \<open>\<^verbatim>\<open>Lstat\<close> of a path, from \<^verbatim>\<open>Lstat\<close> of its directory.\<close>

lemma os_Lstat_snoc:
  assumes "\<not> has_nul (q @ [e])" and "\<not> path_too_long (q @ [e])"
  shows "os_Lstat d (q @ [e]) =
           (case os_Lstat d q of
              Inl x \<Rightarrow> Inl x
            | Inr (RegularFile c) \<Rightarrow> Inl ENOTDIR
            | Inr Directory \<Rightarrow>
                if name_too_long e then Inl ENAMETOOLONG
                else (case stat d (q @ [e]) of None \<Rightarrow> Inl ENOENT | Some n \<Rightarrow> Inr n))"
proof -
  have q: "\<not> has_nul q" "\<not> path_too_long q"
    using assms path_too_long_snoc by (auto simp: has_nul_snoc)
  have "os_Lstat d (q @ [e]) = (case walk d [] q of Inl x \<Rightarrow> Inl x | Inr n \<Rightarrow> walk d q [e])"
    using assms walk_append [of d "[]" q "[e]"] by (simp add: os_Lstat_def split: sum.splits)
  moreover have "os_Lstat d q = walk d [] q"
    using q by (simp add: os_Lstat_def)
  moreover have "stat d q = Some n" if "walk d [] q = Inr n" for n
    using walk_Inr_stat [OF that] by simp
  ultimately show ?thesis
    by (auto split: sum.splits node.splits option.splits)
qed


lemma os_Lstat_EINVAL: "os_Lstat d p = Inl EINVAL \<longleftrightarrow> has_nul p"
proof -
  have "walk d here es \<noteq> Inl EINVAL" for here es
    by (induction es arbitrary: here) (auto split: option.splits node.splits)
  then show ?thesis by (simp add: os_Lstat_def)
qed

text \<open>What \<^verbatim>\<open>Lstat\<close> finds is in the table, below directories, under valid names.\<close>

lemma os_Lstat_Inr:
  "os_Lstat d p = Inr n \<Longrightarrow>
     stat d p = Some n \<and> names_valid p \<and> (p \<noteq> [] \<longrightarrow> os_Lstat d (butlast p) = Inr Directory)"
proof (induction p arbitrary: n rule: rev_induct)
  case Nil
  then show ?case by simp
next
  case (snoc e q)
  from snoc.prems have v: "\<not> has_nul (q @ [e])" "\<not> path_too_long (q @ [e])"
    by (auto simp: os_Lstat_def split: if_splits)
  from snoc.prems os_Lstat_snoc [OF v, of d]
  have par: "os_Lstat d q = Inr Directory" and short: "\<not> name_too_long e"
    and st: "stat d (q @ [e]) = Some n"
    by (auto split: sum.splits node.splits option.splits if_splits)
  from snoc.IH [OF par] have "names_valid q" by simp
  with v short st par show ?case
    by (simp add: names_valid_snoc has_nul_snoc)
qed

lemma os_Lstat_Inr_ancestors:
  "os_Lstat d p = Inr n \<Longrightarrow> a \<in> set (ancestors p) \<Longrightarrow> os_Lstat d a = Inr Directory"
proof (induction p arbitrary: n rule: rev_induct)
  case Nil
  then show ?case by (simp add: ancestors_def)
next
  case (snoc e q)
  from os_Lstat_Inr [OF snoc.prems(1)] have par: "os_Lstat d q = Inr Directory" by simp
  from snoc.prems(2) have "a = q \<or> a \<in> set (ancestors q)"
    by (auto simp: ancestors_snoc)
  with par snoc.IH [OF par] show ?case by auto
qed

lemma os_Lstat_names_valid: "os_Lstat d p = Inr n \<Longrightarrow> names_valid p"
  using os_Lstat_Inr by blast

lemma os_Lstat_stat: "os_Lstat d p = Inr n \<Longrightarrow> stat d p = Some n"
  using os_Lstat_Inr by blast

lemma os_Lstat_parent: "os_Lstat d p = Inr n \<Longrightarrow> os_Lstat d (butlast p) = Inr Directory"
  using os_Lstat_Inr [of d p n] by (cases "p = []") auto

text \<open>A path is found when its directory is found and its name is valid and in the table.\<close>

lemma os_Lstat_found:
  assumes "os_Lstat d (butlast p) = Inr Directory" and "names_valid p" and "stat d p = Some n"
  shows "os_Lstat d p = Inr n"
proof (cases p rule: rev_cases)
  case Nil
  with assms show ?thesis by simp
next
  case (snoc q e)
  with assms have "\<not> has_nul (q @ [e])" "\<not> path_too_long (q @ [e])" "\<not> name_too_long e"
    by (simp_all add: names_valid_def)
  with assms snoc show ?thesis
    by (simp add: os_Lstat_snoc)
qed

lemma os_Lstat_missing:
  assumes "os_Lstat d (butlast p) = Inr Directory" and "names_valid p" and "stat d p = None"
  shows "os_Lstat d p = Inl ENOENT"
proof (cases p rule: rev_cases)
  case Nil
  with assms show ?thesis by simp
next
  case (snoc q e)
  with assms have "\<not> has_nul (q @ [e])" "\<not> path_too_long (q @ [e])" "\<not> name_too_long e"
    by (simp_all add: names_valid_def)
  with assms snoc show ?thesis
    by (simp add: os_Lstat_snoc)
qed

lemma os_Lstat_in_dir:
  assumes "os_Lstat d (butlast p) = Inr Directory" and "p \<noteq> []"
  shows "os_Lstat d p =
           (if has_nul p then Inl EINVAL
            else if path_too_long p \<or> name_too_long (last p) then Inl ENAMETOOLONG
            else (case stat d p of None \<Rightarrow> Inl ENOENT | Some n \<Rightarrow> Inr n))"
proof -
  from assms(2) obtain q e where p: "p = q @ [e]" by (cases p rule: rev_cases) auto
  show ?thesis
  proof (cases "has_nul p \<or> path_too_long p")
    case True
    then show ?thesis by (auto simp: os_Lstat_def)
  next
    case False
    with os_Lstat_snoc [of q e d] assms(1) show ?thesis
      by (simp add: p)
  qed
qed

lemma set_ancestors: "set (ancestors p) = {a. strict_prefix a p}"
proof (cases p rule: rev_cases)
  case Nil
  then show ?thesis by simp
next
  case (snoc q e)
  have 1: "strict_prefix a (q @ [e]) \<longleftrightarrow> prefix a q" for a
    by (auto simp: strict_prefix_def prefix_snoc dest: prefix_length_le)
  have 2: "ancestors (q @ [e]) = prefixes q"
    by (simp add: ancestors_butlast)
  have "set (prefixes q) = {a. prefix a q}"
    by auto
  then show ?thesis
    unfolding snoc 1 2 .
qed


lemma names_valid_append: "names_valid (a @ ys) \<Longrightarrow> names_valid a"
proof (induction ys rule: rev_induct)
  case Nil
  then show ?case by simp
next
  case (snoc y ys)
  from snoc.prems have "names_valid ((a @ ys) @ [y])" by simp
  then have "names_valid (a @ ys)" by (simp only: names_valid_snoc)
  then show ?case by (rule snoc.IH)
qed

lemma names_valid_prefix: "names_valid p \<Longrightarrow> prefix a p \<Longrightarrow> names_valid a"
  by (auto simp: prefix_def names_valid_append)



text \<open>Writing an entry changes what \<^verbatim>\<open>Lstat\<close> finds at that path and below it only.\<close>

lemma os_Lstat_update_other:
  "\<not> prefix p q \<Longrightarrow> os_Lstat (AList.update p n d) q = os_Lstat d q"
  by (rule os_Lstat_cong) (auto simp: stat_update)

lemma butlast_not_prefix: "p \<noteq> [] \<Longrightarrow> \<not> prefix p (butlast p)"
  by (cases p rule: rev_cases) (auto dest: prefix_length_le)

lemma os_Lstat_update_new:
  assumes "os_Lstat d (butlast p) = Inr Directory" and "names_valid p" and "p \<noteq> []"
  shows "os_Lstat (AList.update p n d) p = Inr n"
proof (rule os_Lstat_found)
  show "os_Lstat (AList.update p n d) (butlast p) = Inr Directory"
    using assms(1,3) by (simp add: os_Lstat_update_other butlast_not_prefix)
  show "names_valid p" by fact
  show "stat (AList.update p n d) p = Some n"
    using assms(3) by (simp add: stat_update)
qed

section \<open>Making directories\<close>

lemma os_Mkdir_Inr:
  assumes "os_Mkdir d p = Inr d'"
  shows "d' = AList.update p Directory d" and "os_Lstat d (butlast p) = Inr Directory"
    and "p \<noteq> []" and "stat d p = None" and "names_valid p"
proof -
  from assms show d': "d' = AList.update p Directory d"
    and par: "os_Lstat d (butlast p) = Inr Directory"
    by (auto simp: os_Mkdir_def split: sum.splits node.splits if_splits)
  from assms have l: "os_Lstat d p = Inl ENOENT"
    by (auto simp: os_Mkdir_def split: sum.splits node.splits if_splits)
  then show ne: "p \<noteq> []" by auto
  from l os_Lstat_in_dir [OF par ne]
  have v: "\<not> has_nul p" "\<not> path_too_long p" "\<not> name_too_long (last p)" and st: "stat d p = None"
    by (auto split: if_splits option.splits)
  show "stat d p = None" by fact
  from ne obtain q e where p: "p = q @ [e]" by (cases p rule: rev_cases) auto
  from par have "names_valid q" by (simp add: p os_Lstat_names_valid)
  with v show "names_valid p"
    by (simp add: p names_valid_snoc has_nul_snoc)
qed

lemma os_Mkdir_ok:
  assumes "os_Lstat d (butlast p) = Inr Directory" and "names_valid p" and "stat d p = None"
  shows "os_Mkdir d p = Inr (AList.update p Directory d)"
  using assms os_Lstat_missing [OF assms] by (simp add: os_Mkdir_def)

text \<open>The steps of \<^verbatim>\<open>MkdirAll\<close>, one lemma for each way through it.\<close>

lemma os_MkdirAll_found:
  "os_Lstat d p = Inr Directory \<Longrightarrow> os_MkdirAll d p = (d, None)"
  "os_Lstat d p = Inr (RegularFile c) \<Longrightarrow> os_MkdirAll d p = (d, Some ENOTDIR)"
  by (subst os_MkdirAll.simps, simp)+

lemma os_MkdirAll_parent_fails:
  "os_Lstat d p = Inl e \<Longrightarrow> os_MkdirAll d (butlast p) = (d1, Some e1) \<Longrightarrow>
   os_MkdirAll d p = (d1, Some e1)"
  by (subst os_MkdirAll.simps) simp

lemma os_MkdirAll_parent_made:
  "os_Lstat d p = Inl e \<Longrightarrow> os_MkdirAll d (butlast p) = (d1, None) \<Longrightarrow>
   os_MkdirAll d p =
     (case os_Mkdir d1 p of
        Inr d2 \<Rightarrow> (d2, None)
      | Inl e2 \<Rightarrow> (case os_Lstat d1 p of Inr Directory \<Rightarrow> (d1, None) | _ \<Rightarrow> (d1, Some e2)))"
  by (subst os_MkdirAll.simps) (simp split: sum.splits node.splits)

text \<open>Every way through \<^verbatim>\<open>MkdirAll\<close>: the disk is as before, or as the parent left it, or
  the parent's with the new directory.\<close>

lemma os_MkdirAll_cases:
  obtains (found) "os_MkdirAll d p = (d, None)" "os_Lstat d p = Inr Directory"
  | (regular) c where "os_MkdirAll d p = (d, Some ENOTDIR)" "os_Lstat d p = Inr (RegularFile c)"
  | (parent_fails) e d1 e1 where "os_Lstat d p = Inl e" "p \<noteq> []"
      "os_MkdirAll d (butlast p) = (d1, Some e1)" "os_MkdirAll d p = (d1, Some e1)"
  | (made) e d1 where "os_Lstat d p = Inl e" "p \<noteq> []"
      "os_MkdirAll d (butlast p) = (d1, None)" "os_Mkdir d1 p = Inr (AList.update p Directory d1)"
      "os_MkdirAll d p = (AList.update p Directory d1, None)"
  | (there) e d1 e2 where "os_Lstat d p = Inl e" "p \<noteq> []"
      "os_MkdirAll d (butlast p) = (d1, None)" "os_Mkdir d1 p = Inl e2"
      "os_Lstat d1 p = Inr Directory" "os_MkdirAll d p = (d1, None)"
  | (mkdir_fails) e d1 e2 where "os_Lstat d p = Inl e" "p \<noteq> []"
      "os_MkdirAll d (butlast p) = (d1, None)" "os_Mkdir d1 p = Inl e2"
      "os_Lstat d1 p \<noteq> Inr Directory" "os_MkdirAll d p = (d1, Some e2)"
proof (cases "os_Lstat d p")
  case (Inr n)
  then show ?thesis
    using found regular os_MkdirAll_found by (cases n) auto
next
  case (Inl e)
  then have ne: "p \<noteq> []" by auto
  obtain d1 r1 where up: "os_MkdirAll d (butlast p) = (d1, r1)" by (cases "os_MkdirAll d (butlast p)")
  show ?thesis
  proof (cases r1)
    case (Some e1)
    with Inl ne up parent_fails os_MkdirAll_parent_fails show ?thesis by blast
  next
    case None
    note step = os_MkdirAll_parent_made [OF Inl up [unfolded None]]
    show ?thesis
    proof (cases "os_Mkdir d1 p")
      case (Inr d2)
      with os_Mkdir_Inr(1) [OF Inr] step made [OF Inl ne up [unfolded None]] show ?thesis
        by simp
    next
      case mk: (Inl e2)
      show ?thesis
      proof (cases "os_Lstat d1 p = Inr Directory")
        case True
        with mk step there [OF Inl ne up [unfolded None] mk] show ?thesis by simp
      next
        case False
        with mk step have "os_MkdirAll d p = (d1, Some e2)"
          by (auto split: sum.splits node.splits)
        with False mk mkdir_fails [OF Inl ne up [unfolded None] mk] show ?thesis by simp
      qed
    qed
  qed
qed

text \<open>Frame: \<^verbatim>\<open>MkdirAll\<close> changes the table only at the path and above it, it keeps the
  entries that are there, and what it adds are directories.\<close>

lemma os_MkdirAll_frame:
  "\<not> prefix q p \<Longrightarrow> map_of (fst (os_MkdirAll d p)) q = map_of d q"
proof (induction d p rule: os_MkdirAll.induct)
  case (1 d p)
  have up: "map_of (fst (os_MkdirAll d (butlast p))) q = map_of d q" if "os_Lstat d p = Inl e" for e
  proof -
    have "\<not> prefix q (butlast p)"
      using "1.prems" prefixeq_butlast [of p] prefix_order.trans by blast
    with "1.IH" that show ?thesis by blast
  qed
  have ne: "q \<noteq> p" using "1.prems" by auto
  show ?case
    by (cases d p rule: os_MkdirAll_cases) (use up ne in \<open>auto simp: update_conv'\<close>)
qed

lemma os_MkdirAll_keeps:
  "map_of d q = Some n \<Longrightarrow> map_of (fst (os_MkdirAll d p)) q = Some n"
proof (induction d p rule: os_MkdirAll.induct)
  case (1 d p)
  have up: "map_of (fst (os_MkdirAll d (butlast p))) q = Some n" if "os_Lstat d p = Inl e" for e
    using "1.IH" that "1.prems" by blast
  show ?case
  proof (cases d p rule: os_MkdirAll_cases)
    case (made e d1)
    from os_Mkdir_Inr(3,4) [OF made(4)] have "map_of d1 p = None" by (simp add: stat_def)
    with up [OF made(1)] made(3) have "q \<noteq> p" by auto
    with up [OF made(1)] made show ?thesis by (simp add: update_conv')
  qed (use up "1.prems" in auto)
qed

lemma os_MkdirAll_adds:
  "map_of (fst (os_MkdirAll d p)) q = map_of d q \<or> map_of (fst (os_MkdirAll d p)) q = Some Directory"
proof (induction d p rule: os_MkdirAll.induct)
  case (1 d p)
  show ?case
    by (cases d p rule: os_MkdirAll_cases) (use "1.IH" in \<open>auto simp: update_conv'\<close>)
qed

text \<open>When \<^verbatim>\<open>MkdirAll\<close> has returned no error, the directory is there.\<close>

lemma os_MkdirAll_post:
  assumes "snd (os_MkdirAll d p) = None"
  shows "os_Lstat (fst (os_MkdirAll d p)) p = Inr Directory"
proof (cases d p rule: os_MkdirAll_cases)
  case (made e d1)
  from os_Mkdir_Inr [OF made(4)] made(5) show ?thesis
    by (simp add: os_Lstat_update_new)
qed (use assms in auto)

lemma os_Lstat_prefix_dir:
  assumes "os_Lstat d p = Inr n" and "strict_prefix a p"
  shows "os_Lstat d a = Inr Directory"
  using os_Lstat_Inr_ancestors [OF assms(1)] assms(2) by (simp add: set_ancestors)

text \<open>
  \<^verbatim>\<open>MkdirAll\<close> returns no error exactly when the system accepts the names of the path and
  no regular file is at the path or above it.
\<close>

lemma os_MkdirAll_ok_iff:
  "snd (os_MkdirAll d p) = None \<longleftrightarrow> names_valid p \<and> \<not> list_ex (is_file d) (prefixes p)"
proof
  assume ok: "snd (os_MkdirAll d p) = None"
  let ?d' = "fst (os_MkdirAll d p)"
  from os_MkdirAll_post [OF ok] have l: "os_Lstat ?d' p = Inr Directory" .
  have "\<not> is_file d a" if "prefix a p" for a
  proof
    assume "is_file d a"
    then obtain c where c: "stat d a = Some (RegularFile c)" by (auto simp: is_file_iff)
    then have "a \<noteq> []" by auto
    with c have "map_of d a = Some (RegularFile c)" by (simp add: stat_def)
    then have "map_of ?d' a = Some (RegularFile c)" by (rule os_MkdirAll_keeps)
    then have f: "stat ?d' a = Some (RegularFile c)" using \<open>a \<noteq> []\<close> by (simp add: stat_def)
    have "os_Lstat ?d' a = Inr Directory"
      using that l os_Lstat_prefix_dir [OF l, of a] by (cases "a = p") auto
    with f show False by (simp add: os_Lstat_stat)
  qed
  with l show "names_valid p \<and> \<not> list_ex (is_file d) (prefixes p)"
    by (auto simp: list_ex_iff os_Lstat_names_valid)
next
  assume "names_valid p \<and> \<not> list_ex (is_file d) (prefixes p)"
  then show "snd (os_MkdirAll d p) = None"
  proof (induction d p rule: os_MkdirAll.induct)
    case (1 d p)
    from "1.prems" have v: "names_valid p" and nf: "\<And>a. prefix a p \<Longrightarrow> \<not> is_file d a"
      by (auto simp: list_ex_iff)
    have up: "snd (os_MkdirAll d (butlast p)) = None" if "os_Lstat d p = Inl e" for e
    proof -
      have "\<not> list_ex (is_file d) (prefixes (butlast p))"
        using nf prefixeq_butlast [of p] prefix_order.trans by (auto simp: list_ex_iff)
      with "1.IH" [OF that] v show ?thesis by (simp add: names_valid_butlast)
    qed
    show ?case
    proof (cases d p rule: os_MkdirAll_cases)
      case (regular c)
      with nf [of p] show ?thesis by (simp add: is_file_iff os_Lstat_stat)
    next
      case (parent_fails e d1 e1)
      with up show ?thesis by fastforce
    next
      case (mkdir_fails e d1 e2)
      from os_MkdirAll_post [OF up [OF mkdir_fails(1)]] mkdir_fails(3)
      have par: "os_Lstat d1 (butlast p) = Inr Directory" by simp
      have "map_of d1 p = map_of d p"
        using os_MkdirAll_frame [of p "butlast p" d] mkdir_fails(2,3)
        by (simp add: butlast_not_prefix)
      then have st: "stat d1 p = stat d p" by (simp add: stat_def)
      show ?thesis
      proof (cases "stat d p")
        case None
        with os_Mkdir_ok [OF par v] st mkdir_fails(4) show ?thesis by simp
      next
        case (Some n)
        with nf [of p] have "n = Directory" by (cases n) (auto simp: is_file_iff)
        with Some st os_Lstat_found [OF par v] mkdir_fails(5) show ?thesis by simp
      qed
    qed simp_all
  qed
qed

section \<open>Writing and removing files\<close>

lemma os_WriteFile_Inr:
  assumes "os_WriteFile d p content = Inr d'"
  shows "d' = AList.update p (RegularFile content) d"
    and "os_Lstat d (butlast p) = Inr Directory" and "p \<noteq> []" and "names_valid p"
    and "stat d p \<noteq> Some Directory"
proof -
  from assms show "d' = AList.update p (RegularFile content) d"
    by (auto simp: os_WriteFile_def split: sum.splits node.splits if_splits)
  from assms have c: "(\<exists>c. os_Lstat d p = Inr (RegularFile c))
      \<or> os_Lstat d p = Inl ENOENT \<and> os_Lstat d (butlast p) = Inr Directory"
    by (auto simp: os_WriteFile_def split: sum.splits node.splits if_splits)
  then show par: "os_Lstat d (butlast p) = Inr Directory"
    by (auto simp: os_Lstat_parent)
  from c show ne: "p \<noteq> []" by auto
  from c os_Lstat_in_dir [OF par ne]
  have v: "\<not> has_nul p" "\<not> path_too_long p" "\<not> name_too_long (last p)"
    and st: "stat d p \<noteq> Some Directory"
    by (auto split: if_splits option.splits)
  show "stat d p \<noteq> Some Directory" by fact
  from ne obtain q e where p: "p = q @ [e]" by (cases p rule: rev_cases) auto
  from par have "names_valid q" by (simp add: p os_Lstat_names_valid)
  with v show "names_valid p"
    by (simp add: p names_valid_snoc has_nul_snoc)
qed

text \<open>In a directory that exists, \<^verbatim>\<open>WriteFile\<close> fails on an invalid name and on a directory.\<close>

lemma os_WriteFile_in_dir:
  assumes "os_Lstat d (butlast p) = Inr Directory" and "p \<noteq> []"
  shows "os_WriteFile d p content =
           (if has_nul p then Inl EINVAL
            else if path_too_long p \<or> name_too_long (last p) then Inl ENAMETOOLONG
            else if stat d p = Some Directory then Inl EISDIR
            else Inr (AList.update p (RegularFile content) d))"
  using assms
  by (auto simp: os_WriteFile_def os_Lstat_in_dir [OF assms] split: option.splits node.splits)

lemma os_WriteFile_post:
  assumes "os_WriteFile d p content = Inr d'"
  shows "os_Lstat d' p = Inr (RegularFile content)"
  using os_WriteFile_Inr [OF assms] by (simp add: os_Lstat_update_new)

lemma os_WriteFile_frame:
  "os_WriteFile d p content = Inr d' \<Longrightarrow> q \<noteq> p \<Longrightarrow> map_of d' q = map_of d q"
  using os_WriteFile_Inr(1) [of d p content d'] by (simp add: update_conv')

lemma os_Remove_frame:
  "os_Remove d p = Inr d' \<Longrightarrow> q \<noteq> p \<Longrightarrow> map_of d' q = map_of d q"
  by (auto simp: os_Remove_def delete_conv' split: sum.splits node.splits if_splits)


section \<open>The calls of the backend and the loop\<close>

lemma MkdirAll_eq:
  "MkdirAll p w =
     (w\<lparr>calls := calls w @ [CallMkdirAll p], disk := fst (os_MkdirAll (disk w) p)\<rparr>,
      snd (os_MkdirAll (disk w) p))"
  by (simp add: MkdirAll_def Let_def split: prod.splits)

lemma MkdirAll_frame:
  "MkdirAll p w = (w', r) \<Longrightarrow> \<not> prefix q p \<Longrightarrow> map_of (disk w') q = map_of (disk w) q"
  by (auto simp: MkdirAll_eq os_MkdirAll_frame)

lemma WriteFile_frame:
  "WriteFile p content w = (w', r) \<Longrightarrow> q \<noteq> p \<Longrightarrow> map_of (disk w') q = map_of (disk w) q"
  by (auto simp: WriteFile_def Let_def os_WriteFile_frame split: sum.splits)

lemma Remove_frame:
  "Remove p w = (w', r) \<Longrightarrow> q \<noteq> p \<Longrightarrow> map_of (disk w') q = map_of (disk w) q"
  by (auto simp: Remove_def Let_def os_Remove_frame split: sum.splits)

lemma prefix_Dir: "prefix q (Dir t) \<Longrightarrow> prefix q t"
  using prefixeq_butlast [of t] prefix_order.trans by (auto simp: Dir_def split: if_splits)

lemma switchType_frame:
  assumes "switchType act t w = (w', r)" and "\<not> prefix q t"
  shows "map_of (disk w') q = map_of (disk w) q"
proof -
  have nd: "\<not> prefix q (Dir t)" using assms(2) prefix_Dir by blast
  have ne: "q \<noteq> t" using assms(2) by auto
  show ?thesis
    using assms(1) MkdirAll_frame [OF _ nd] WriteFile_frame [OF _ ne] Remove_frame [OF _ ne]
    by (auto simp: switchType_def log_Printf_def split: if_splits prod.splits option.splits)
qed

text \<open>The loop keeps what every round keeps.\<close>

lemma range_actions_keeps:
  assumes "\<And>act w. P w \<Longrightarrow> P (fst (body act w))"
  shows "P w \<Longrightarrow> P (fst (range_actions body acts w))"
proof (induction acts arbitrary: w)
  case Nil
  then show ?case by simp
next
  case (Cons act rest)
  from assms [OF Cons.prems, of act] Cons.IH [of "fst (body act w)"]
  show ?case
    by (auto split: prod.splits option.splits)
qed


section \<open>The count in the success response\<close>

text \<open>
  Claim C7. Whenever \<^verbatim>\<open>handleEdit\<close> answers with success, the provider returned a text,
  that text (cleaned once by the provider function and once more by \<^verbatim>\<open>handleEdit\<close>)
  decoded to a batch, \<^verbatim>\<open>applyEdits\<close> ran on that batch without returning an error, and
  the field \<open>applied\<close> of the response is the number of actions of the decoded batch:
  every action counts, whether or not it led to a call of the file system.
\<close>

theorem handleEdit_applied_is_batch_size:
  assumes "handleEdit normalizePath unmarshal x w = (w', Success n)"
  shows "\<exists>content edits.
           upstream x = Inr content
         \<and> unmarshal (cleanAIResponse (cleanAIResponse content)) = Inr edits
         \<and> applyEdits normalizePath edits w = (w', None)
         \<and> n = length (Actions edits)"
  using assms
  by (auto simp: handleEdit_def callOpenRouter_def callOllama_def Let_def
           split: if_splits sum.splits option.splits prod.splits)

text \<open>
  A batch of two actions, one on the protected file and one of an unknown type: no call
  of the file system is made, and the response says \<open>applied = 2\<close>.
\<close>

theorem handleEdit_applied_is_batch_size_witness:
  "handleEdit (\<lambda>p. p)
     (\<lambda>s. Inr \<lparr>Actions =
        [\<lparr>Type = ''update'', Path = ''components/SidePanel.tsx'', Content = ''x''\<rparr>,
         \<lparr>Type = ''rename'', Path = ''App.tsx'', Content = []\<rparr>]\<rparr>)
     \<lparr>reqMethod = ''POST'',
      reqBody = Inr \<lparr>Instructions = ''go'', Provider = ''ollama'', Model = ''qwen2.5''\<rparr>,
      contextJSON = Inr ''[]'', upstream = Inr ''{}''\<rparr>
     \<lparr>disk = [], calls = [], logs = []\<rparr>
   = (\<lparr>disk = [], calls = [],
       logs = [LogApplying 2, LogSkipSidePanel ''components/SidePanel.tsx'',
               LogUnknownType ''rename'']\<rparr>,
      Success 2)
   \<and> (\<exists>edits. (2::nat) = length (Actions edits)
         \<and> applyEdits (\<lambda>p. p) edits \<lparr>disk = [], calls = [], logs = []\<rparr>
             = (\<lparr>disk = [], calls = [],
                 logs = [LogApplying 2, LogSkipSidePanel ''components/SidePanel.tsx'',
                         LogUnknownType ''rename'']\<rparr>, None))"
proof -
  let ?um = "\<lambda>s::string. (Inr \<lparr>Actions =
        [\<lparr>Type = ''update'', Path = ''components/SidePanel.tsx'', Content = ''x''\<rparr>,
         \<lparr>Type = ''rename'', Path = ''App.tsx'', Content = []\<rparr>]\<rparr> :: string + AIEditActions)"
  let ?x = "\<lparr>reqMethod = ''POST'',
      reqBody = Inr \<lparr>Instructions = ''go'', Provider = ''ollama'', Model = ''qwen2.5''\<rparr>,
      contextJSON = Inr ''[]'', upstream = Inr ''{}''\<rparr>"
  let ?w = "\<lparr>disk = [], calls = [], logs = []\<rparr>"
  let ?w' = "\<lparr>disk = [], calls = [],
       logs = [LogApplying 2, LogSkipSidePanel ''components/SidePanel.tsx'',
               LogUnknownType ''rename'']\<rparr>"
  have run: "handleEdit (\<lambda>p. p) ?um ?x ?w = (?w', Success 2)"
    by (simp add: handleEdit_def callOllama_def applyEdits_def applyEdits_body_def
          Contains_def HasPrefix_def switchType_def log_Printf_def Let_def)
  from handleEdit_applied_is_batch_size [OF run]
  have "\<exists>edits. (2::nat) = length (Actions edits) \<and> applyEdits (\<lambda>p. p) edits ?w = (?w', None)"
    by blast
  with run show ?thesis by simp
qed

section \<open>The cap on the batch\<close>

text \<open>
  Claim C6. In \<^verbatim>\<open>callOllama\<close> of the second listing of main.go, a decoded batch of more
  than 100 actions is cut to its first 100 actions, in their order, and returned without
  an error, so that \<^verbatim>\<open>handleEdit\<close> goes on to \<^verbatim>\<open>applyEdits\<close> with the cut batch; a batch of
  more than 50 and at most 100 actions is returned as it is, with one more log line.
\<close>

theorem callOllama_main2_cap:
  "(100 < length (Actions edits) \<longrightarrow>
      callOllama_main2 (Inr edits) w
        = (log_Printf LogTooMany (log_Printf (LogSuggested (length (Actions edits))) w),
           Inr (edits\<lparr>Actions := take 100 (Actions edits)\<rparr>))
      \<and> length (take 100 (Actions edits)) = 100
      \<and> (reqMethod x = ''POST'' \<and> reqBody x = Inr req \<and> contextJSON x = Inr ctx
           \<and> upstream x = Inr edits \<longrightarrow>
         handleEdit_main2 x w
           = (case applyEdits_main2 (edits\<lparr>Actions := take 100 (Actions edits)\<rparr>)
                     (log_Printf LogTooMany
                        (log_Printf (LogSuggested (length (Actions edits))) w)) of
                (w2, Some err) \<Rightarrow> (w2, HttpError 500 (IOError err))
              | (w2, None) \<Rightarrow> (w2, SuccessStatusOnly))))
   \<and> (50 < length (Actions edits) \<and> length (Actions edits) \<le> 100 \<longrightarrow>
      callOllama_main2 (Inr edits) w
        = (log_Printf LogLarge (log_Printf (LogSuggested (length (Actions edits))) w),
           Inr edits))"
  by (auto simp: callOllama_main2_def handleEdit_main2_def Let_def)

text \<open>120 unknown actions are cut to 100; 60 are kept.\<close>

theorem callOllama_main2_cap_witness:
  "100 < length (Actions \<lparr>Actions = replicate 120 \<lparr>Type = ''noop'', Path = ''a'', Content = []\<rparr>\<rparr>)
   \<and> callOllama_main2
        (Inr \<lparr>Actions = replicate 120 \<lparr>Type = ''noop'', Path = ''a'', Content = []\<rparr>\<rparr>)
        \<lparr>disk = [], calls = [], logs = []\<rparr>
      = (\<lparr>disk = [], calls = [], logs = [LogSuggested 120, LogTooMany]\<rparr>,
         Inr \<lparr>Actions = replicate 100 \<lparr>Type = ''noop'', Path = ''a'', Content = []\<rparr>\<rparr>)
   \<and> callOllama_main2
        (Inr \<lparr>Actions = replicate 60 \<lparr>Type = ''noop'', Path = ''a'', Content = []\<rparr>\<rparr>)
        \<lparr>disk = [], calls = [], logs = []\<rparr>
      = (\<lparr>disk = [], calls = [], logs = [LogSuggested 60, LogLarge]\<rparr>,
         Inr \<lparr>Actions = replicate 60 \<lparr>Type = ''noop'', Path = ''a'', Content = []\<rparr>\<rparr>)"
  using callOllama_main2_cap
          [of "\<lparr>Actions = replicate 120 \<lparr>Type = ''noop'', Path = ''a'', Content = []\<rparr>\<rparr>"
              "\<lparr>disk = [], calls = [], logs = []\<rparr>"]
        callOllama_main2_cap
          [of "\<lparr>Actions = replicate 60 \<lparr>Type = ''noop'', Path = ''a'', Content = []\<rparr>\<rparr>"
              "\<lparr>disk = [], calls = [], logs = []\<rparr>"]
  by (simp add: log_Printf_def)

section \<open>The sanitizer on text that is already clean\<close>

text \<open>
  Claim C3, as amended. \<^verbatim>\<open>cleanAIResponse\<close> is a total function, and it returns its
  input unchanged when the input starts with \<open>{\<close>, ends with \<open>}\<close> and contains none of
  the eight texts that the function replaces.
\<close>

theorem cleanAIResponse_unchanged:
  assumes "s \<noteq> []" and "hd s = CHR ''{''" and "last s = CHR ''}''"
    and "\<forall>p \<in> set fixup_patterns. \<not> Contains s p"
  shows "cleanAIResponse s = s"
proof -
  have i: "Index s ''{'' = 0"
    using assms(1,2) by (rule Index_hd)
  have l: "LastIndex s ''}'' = int (length s) - 1"
    using assms(1,3) by (rule LastIndex_last)
  have r: "ReplaceAll s p new = s" if "p \<in> set fixup_patterns" for p new
    using assms(4) that by (simp add: ReplaceAll_absent)
  show ?thesis
    unfolding cleanAIResponse_def Let_def
    by (simp add: i l r fixup_patterns_def)
qed

text \<open>The JSON text of a batch with one delete action has none of the eight texts.\<close>

theorem cleanAIResponse_unchanged_witness:
  "json_actions \<lparr>Actions = [\<lparr>Type = ''delete'', Path = ''src/old.tsx'', Content = []\<rparr>]\<rparr>
     = ''{\"actions\":[{\"type\":\"delete\",\"path\":\"src/old.tsx\",\"content\":\"\"}]}''
   \<and> list_all
         (\<lambda>p. \<not> Contains ''{\"actions\":[{\"type\":\"delete\",\"path\":\"src/old.tsx\",\"content\":\"\"}]}'' p)
         fixup_patterns
   \<and> cleanAIResponse ''{\"actions\":[{\"type\":\"delete\",\"path\":\"src/old.tsx\",\"content\":\"\"}]}''
     = ''{\"actions\":[{\"type\":\"delete\",\"path\":\"src/old.tsx\",\"content\":\"\"}]}''"
proof -
  let ?s = "''{\"actions\":[{\"type\":\"delete\",\"path\":\"src/old.tsx\",\"content\":\"\"}]}''"
  have j: "json_actions \<lparr>Actions = [\<lparr>Type = ''delete'', Path = ''src/old.tsx'', Content = []\<rparr>]\<rparr> = ?s"
    by (simp add: json_actions_def json_action_def json_string_def)
  have none: "\<forall>p \<in> set fixup_patterns. \<not> Contains ?s p"
    by (simp add: fixup_patterns_def Contains_def)
  have "cleanAIResponse ?s = ?s"
    by (rule cleanAIResponse_unchanged [OF _ _ _ none]) simp_all
  with j none show ?thesis by (simp add: list_all_iff)
qed

text \<open>
  The claim as stated fails: the JSON text of a batch whose file content has a line feed
  before a closing brace is valid JSON with nothing before its first \<open>{\<close> or after its
  last \<open>}\<close>, and \<^verbatim>\<open>cleanAIResponse\<close> removes the escaped line feed from it.
\<close>

theorem cleanAIResponse_changes_valid_json:
  "json_actions \<lparr>Actions =
       [\<lparr>Type = ''create'', Path = ''src/f.js'', Content = ''f(){'' @ [CHR 0x0A] @ ''}''\<rparr>]\<rparr>
     = ''{\"actions\":[{\"type\":\"create\",\"path\":\"src/f.js\",\"content\":\"f(){''
         @ [bslash] @ ''n}\"}]}''
   \<and> cleanAIResponse (''{\"actions\":[{\"type\":\"create\",\"path\":\"src/f.js\",\"content\":\"f(){''
         @ [bslash] @ ''n}\"}]}'')
     = ''{\"actions\":[{\"type\":\"create\",\"path\":\"src/f.js\",\"content\":\"f(){}\"}]}''
   \<and> cleanAIResponse (json_actions \<lparr>Actions =
       [\<lparr>Type = ''create'', Path = ''src/f.js'', Content = ''f(){'' @ [CHR 0x0A] @ ''}''\<rparr>]\<rparr>)
     \<noteq> json_actions \<lparr>Actions =
       [\<lparr>Type = ''create'', Path = ''src/f.js'', Content = ''f(){'' @ [CHR 0x0A] @ ''}''\<rparr>]\<rparr>"
proof -
  have j: "json_actions \<lparr>Actions =
       [\<lparr>Type = ''create'', Path = ''src/f.js'', Content = ''f(){'' @ [CHR 0x0A] @ ''}''\<rparr>]\<rparr>
     = ''{\"actions\":[{\"type\":\"create\",\"path\":\"src/f.js\",\"content\":\"f(){''
         @ [bslash] @ ''n}\"}]}''"
    by (simp add: json_actions_def json_action_def json_string_def)
  have c: "cleanAIResponse (''{\"actions\":[{\"type\":\"create\",\"path\":\"src/f.js\",\"content\":\"f(){''
         @ [bslash] @ ''n}\"}]}'')
     = ''{\"actions\":[{\"type\":\"create\",\"path\":\"src/f.js\",\"content\":\"f(){}\"}]}''"
    by code_simp
  show ?thesis
    unfolding j c by simp
qed

section \<open>The protected file\<close>

lemma applyEdits_body_frame:
  assumes "\<exists>e \<in> set q. Contains e ''SidePanel''"
  shows "map_of (disk (fst (applyEdits_body np act w))) q = map_of (disk w) q"
proof (cases "Contains (np (Path act)) ''SidePanel''
              \<or> Contains (np (Path act)) ''..'' \<or> HasPrefix (np (Path act)) ''/''")
  case True
  then show ?thesis
    by (auto simp: applyEdits_body_def Let_def log_Printf_def)
next
  case False
  let ?t = "Join [projectRoot, TrimPrefix (np (Path act)) ''src/'']"
  have "\<not> prefix q ?t"
  proof
    assume "prefix q ?t"
    then have "set q \<subseteq> set ?t" by (rule set_mono_prefix)
    with assms obtain e where "e \<in> set ?t" and "Contains e ''SidePanel''" by blast
    then have "Contains (TrimPrefix (np (Path act)) ''src/'') ''SidePanel''"
      by (rule Join_projectRoot_elems)
    then have "Contains (np (Path act)) ''SidePanel''" by (rule Contains_TrimPrefix)
    with False show False by simp
  qed
  then have "map_of (disk (fst (switchType act ?t w0))) q = map_of (disk w0) q" for w0
    using switchType_frame [of act ?t w0] by (cases "switchType act ?t w0") auto
  with False show ?thesis
    by (simp add: applyEdits_body_def Let_def log_Printf_def)
qed

lemma applyEdits_main_body_frame:
  assumes "\<exists>e \<in> set q. Contains e ''SidePanel''"
  shows "map_of (disk (fst (applyEdits_main_body act w))) q = map_of (disk w) q"
proof (cases "Contains (Path act) ''SidePanel''")
  case True
  then show ?thesis
    by (simp add: applyEdits_main_body_def log_Printf_def)
next
  case False
  let ?t = "Join [projectRoot, Path act]"
  have "\<not> prefix q ?t"
  proof
    assume "prefix q ?t"
    then have "set q \<subseteq> set ?t" by (rule set_mono_prefix)
    with assms obtain e where "e \<in> set ?t" and "Contains e ''SidePanel''" by blast
    then have "Contains (Path act) ''SidePanel''"
      by (rule Join_projectRoot_elems)
    with False show False by simp
  qed
  then have "map_of (disk (fst (switchType act ?t w))) q = map_of (disk w) q"
    using switchType_frame [of act ?t w] by (cases "switchType act ?t w") auto
  with False show ?thesis
    by (simp add: applyEdits_main_body_def)
qed

lemma applyEdits_frame:
  assumes "\<exists>e \<in> set q. Contains e ''SidePanel''"
  shows "map_of (disk (fst (applyEdits np edits w))) q = map_of (disk w) q"
  unfolding applyEdits_def
  by (rule range_actions_keeps [where P = "\<lambda>w'. map_of (disk w') q = map_of (disk w) q"])
     (simp_all add: applyEdits_body_frame [OF assms] log_Printf_def)

lemma applyEdits_main_frame:
  assumes "\<exists>e \<in> set q. Contains e ''SidePanel''"
  shows "map_of (disk (fst (applyEdits_main edits w))) q = map_of (disk w) q"
  unfolding applyEdits_main_def
  by (rule range_actions_keeps [where P = "\<lambda>w'. map_of (disk w') q = map_of (disk w) q"])
     (simp_all add: applyEdits_main_body_frame [OF assms] log_Printf_def)

text \<open>
  Claim C2. An action whose path (in the listing with \<^verbatim>\<open>normalizePath\<close>: whose normalized
  path) contains \<open>SidePanel\<close> is skipped whatever its type: no call of the file system,
  the disk as before, the loop goes on. And whatever the batch, a file with \<open>SidePanel\<close>
  in the name of one of its path elements has after \<^verbatim>\<open>applyEdits\<close> the content it had before,
  in both listings that have the check.
\<close>

theorem protected_file_is_kept:
  "(Contains (Path act) ''SidePanel'' \<longrightarrow>
      applyEdits_main_body act w = (log_Printf (LogSkipSidePanel (Path act)) w, None))
   \<and> (Contains (np (Path act)) ''SidePanel'' \<longrightarrow>
      snd (applyEdits_body np act w) = None
      \<and> disk (fst (applyEdits_body np act w)) = disk w
      \<and> calls (fst (applyEdits_body np act w)) = calls w)
   \<and> ((\<exists>e \<in> set q. Contains e ''SidePanel'') \<longrightarrow>
      map_of (disk (fst (applyEdits np edits w))) q = map_of (disk w) q
      \<and> map_of (disk (fst (applyEdits_main edits w))) q = map_of (disk w) q)"
  by (auto simp: applyEdits_main_body_def applyEdits_body_def Let_def log_Printf_def
        applyEdits_frame applyEdits_main_frame)

text \<open>
  On the sample project a batch asks to delete the protected file, to update another file
  and to remove the directory of the protected file: the protected file is still there.
\<close>

theorem protected_file_is_kept_witness:
  "Contains ''src/components/SidePanel.tsx'' ''SidePanel''
   \<and> (\<exists>e \<in> set sidepanel_file. Contains e ''SidePanel'')
   \<and> applyEdits_main_body
         \<lparr>Type = ''delete'', Path = ''src/components/SidePanel.tsx'', Content = []\<rparr> sample_world
       = (log_Printf (LogSkipSidePanel ''src/components/SidePanel.tsx'') sample_world, None)
   \<and> calls (fst (applyEdits_body (\<lambda>p. p)
         \<lparr>Type = ''delete'', Path = ''src/components/SidePanel.tsx'', Content = []\<rparr> sample_world)) = []
   \<and> map_of (disk (fst (applyEdits (\<lambda>p. p)
         \<lparr>Actions = [\<lparr>Type = ''delete'', Path = ''src/components/SidePanel.tsx'', Content = []\<rparr>,
                     \<lparr>Type = ''update'', Path = ''src/App.tsx'', Content = ''new''\<rparr>,
                     \<lparr>Type = ''delete'', Path = ''src/components'', Content = []\<rparr>]\<rparr>
         sample_world))) sidepanel_file = Some (RegularFile ''panel'')
   \<and> map_of (disk (fst (applyEdits_main
         \<lparr>Actions = [\<lparr>Type = ''delete'', Path = ''src/components/SidePanel.tsx'', Content = []\<rparr>,
                     \<lparr>Type = ''update'', Path = ''src/App.tsx'', Content = ''new''\<rparr>,
                     \<lparr>Type = ''delete'', Path = ''src/components'', Content = []\<rparr>]\<rparr>
         sample_world))) sidepanel_file = Some (RegularFile ''panel'')"
proof -
  have c: "Contains ''src/components/SidePanel.tsx'' ''SidePanel''"
    by (simp add: Contains_def)
  have e: "\<exists>e \<in> set sidepanel_file. Contains e ''SidePanel''"
    by (simp add: sidepanel_file_def Contains_def)
  have m: "map_of (disk sample_world) sidepanel_file = Some (RegularFile ''panel'')"
    by (simp add: sample_world_def sample_disk_def sidepanel_file_def)
  have k: "calls sample_world = []"
    by (simp add: sample_world_def)
  show ?thesis
    using c e m k
      protected_file_is_kept
        [of "\<lparr>Type = ''delete'', Path = ''src/components/SidePanel.tsx'', Content = []\<rparr>"
            sample_world "\<lambda>p. p" sidepanel_file
            "\<lparr>Actions = [\<lparr>Type = ''delete'', Path = ''src/components/SidePanel.tsx'', Content = []\<rparr>,
                     \<lparr>Type = ''update'', Path = ''src/App.tsx'', Content = ''new''\<rparr>,
                     \<lparr>Type = ''delete'', Path = ''src/components'', Content = []\<rparr>]\<rparr>"]
    by simp
qed

section \<open>Create and update\<close>

lemma switchType_create_update:
  assumes "Content a1 = Content a2" and "Type a1 = ''create''" and "Type a2 = ''update''"
  shows "same_effect (switchType a1 t w) (switchType a2 t w)"
  using assms
  by (auto simp: same_effect_def switchType_def MkdirAll_eq WriteFile_def log_Printf_def Let_def
           split: sum.splits option.splits)

text \<open>The switch on a create or update: \<^verbatim>\<open>MkdirAll\<close> of the directory, then \<^verbatim>\<open>WriteFile\<close>.\<close>

lemma switchType_write:
  assumes "Type act = ''create'' \<or> Type act = ''update''"
  shows "switchType act t w =
     (let d1 = fst (os_MkdirAll (disk w) (Dir t));
          w1 = w\<lparr>calls := calls w @ [CallMkdirAll (Dir t)], disk := d1\<rparr>
      in case snd (os_MkdirAll (disk w) (Dir t)) of
           Some e \<Rightarrow> (w1, Some e)
         | None \<Rightarrow>
             (case os_WriteFile d1 t (Content act) of
                Inl e \<Rightarrow> (w1\<lparr>calls := calls w @ [CallMkdirAll (Dir t), CallWriteFile t (Content act)]\<rparr>,
                          Some e)
              | Inr d2 \<Rightarrow>
                  (w\<lparr>calls := calls w @ [CallMkdirAll (Dir t), CallWriteFile t (Content act)],
                     disk := d2, logs := logs w @ [LogWrote (Type act) t (Path act)]\<rparr>, None)))"
  using assms
  by (auto simp: switchType_def MkdirAll_eq WriteFile_def log_Printf_def Let_def
        split: sum.splits option.splits)

lemma Dir_butlast: "t \<noteq> [''/''] \<Longrightarrow> Dir t = butlast t"
  by (simp add: Dir_def)

text \<open>After \<^verbatim>\<open>MkdirAll\<close> of the directory, \<^verbatim>\<open>WriteFile\<close> fails on an invalid name and on a
  directory only.\<close>

lemma write_after_mkdir:
  assumes ok: "snd (os_MkdirAll d (butlast t)) = None" and ne: "t \<noteq> []"
  shows "os_WriteFile (fst (os_MkdirAll d (butlast t))) t content =
           (if has_nul t then Inl EINVAL
            else if path_too_long t \<or> name_too_long (last t) then Inl ENAMETOOLONG
            else if stat d t = Some Directory then Inl EISDIR
            else Inr (AList.update t (RegularFile content) (fst (os_MkdirAll d (butlast t)))))"
proof -
  let ?d1 = "fst (os_MkdirAll d (butlast t))"
  have "map_of ?d1 t = map_of d t"
    using ne by (simp add: os_MkdirAll_frame butlast_not_prefix)
  then have "stat ?d1 t = stat d t" by (simp add: stat_def)
  with os_WriteFile_in_dir [OF os_MkdirAll_post [OF ok] ne, of content] show ?thesis
    by simp
qed

lemma names_valid_last:
  "t \<noteq> [] \<Longrightarrow>
   names_valid t \<longleftrightarrow>
     names_valid (butlast t) \<and> \<not> has_nul t \<and> \<not> path_too_long t \<and> \<not> name_too_long (last t)"
  by (cases t rule: rev_cases)
     (auto simp: names_valid_snoc has_nul_snoc names_valid_def dest: path_too_long_snoc)

text \<open>When a create or update returns no error.\<close>

lemma switchType_write_ok_iff:
  assumes ty: "Type act = ''create'' \<or> Type act = ''update''" and nr: "t \<noteq> [''/'']"
  shows "snd (switchType act t w) = None \<longleftrightarrow>
           names_valid t \<and> \<not> list_ex (is_file (disk w)) (ancestors t)
           \<and> stat (disk w) t \<noteq> Some Directory"
proof (cases "t = []")
  case True
  then show ?thesis
    using ty by (simp add: switchType_write Dir_def os_MkdirAll_found os_WriteFile_def Let_def)
next
  case False
  note wr = write_after_mkdir [OF _ False, of "disk w" "Content act"]
  show ?thesis
  proof (cases "snd (os_MkdirAll (disk w) (butlast t))")
    case (Some e)
    then have "\<not> (names_valid (butlast t) \<and> \<not> list_ex (is_file (disk w)) (ancestors t))"
      using os_MkdirAll_ok_iff [of "disk w" "butlast t"] False by (simp add: ancestors_butlast)
    with Some show ?thesis
      using ty nr False by (auto simp: switchType_write Dir_butlast Let_def names_valid_last)
  next
    case None
    then have "names_valid (butlast t) \<and> \<not> list_ex (is_file (disk w)) (ancestors t)"
      using os_MkdirAll_ok_iff [of "disk w" "butlast t"] False by (simp add: ancestors_butlast)
    with None wr [OF None] show ?thesis
      using ty nr False by (simp add: switchType_write Dir_butlast Let_def names_valid_last)
  qed
qed

text \<open>What a create or update that returned no error has done.\<close>

lemma switchType_write_result:
  assumes ty: "Type act = ''create'' \<or> Type act = ''update''"
    and ok: "snd (switchType act t w) = None"
  shows "os_Lstat (disk (fst (switchType act t w))) t = Inr (RegularFile (Content act))"
    and "list_all (\<lambda>a. os_Lstat (disk (fst (switchType act t w))) a = Inr Directory) (ancestors t)"
    and "calls (fst (switchType act t w))
           = calls w @ [CallMkdirAll (Dir t), CallWriteFile t (Content act)]"
    and "logs (fst (switchType act t w)) = logs w @ [LogWrote (Type act) t (Path act)]"
proof -
  let ?d1 = "fst (os_MkdirAll (disk w) (Dir t))"
  from ok ty have mk: "snd (os_MkdirAll (disk w) (Dir t)) = None"
    by (auto simp: switchType_write Let_def split: option.splits)
  with ok ty obtain d2 where wr: "os_WriteFile ?d1 t (Content act) = Inr d2"
    by (auto simp: switchType_write Let_def split: sum.splits)
  from mk wr ty have sw: "switchType act t w =
      (w\<lparr>calls := calls w @ [CallMkdirAll (Dir t), CallWriteFile t (Content act)],
         disk := d2, logs := logs w @ [LogWrote (Type act) t (Path act)]\<rparr>, None)"
    by (simp add: switchType_write Let_def)
  from os_WriteFile_post [OF wr] sw
  show l: "os_Lstat (disk (fst (switchType act t w))) t = Inr (RegularFile (Content act))"
    by simp
  from os_Lstat_Inr_ancestors [OF l]
  show "list_all (\<lambda>a. os_Lstat (disk (fst (switchType act t w))) a = Inr Directory) (ancestors t)"
    by (simp add: list_all_iff)
  from sw show "calls (fst (switchType act t w))
           = calls w @ [CallMkdirAll (Dir t), CallWriteFile t (Content act)]"
    by simp
  from sw show "logs (fst (switchType act t w)) = logs w @ [LogWrote (Type act) t (Path act)]"
    by simp
qed

text \<open>A create or update keeps every other entry of the table.\<close>

lemma switchType_write_keeps:
  assumes ty: "Type act = ''create'' \<or> Type act = ''update''"
    and "q \<noteq> t" and "map_of (disk w) q = Some n"
  shows "map_of (disk (fst (switchType act t w))) q = Some n"
proof -
  have k: "map_of (fst (os_MkdirAll (disk w) (Dir t))) q = Some n"
    using assms(3) by (rule os_MkdirAll_keeps)
  show ?thesis
    using ty k assms(2) os_WriteFile_Inr(1) [of "fst (os_MkdirAll (disk w) (Dir t))" t "Content act"]
    by (auto simp: switchType_write Let_def update_conv' split: option.splits sum.splits)
qed

text \<open>The target is a regular file: it is overwritten, and nothing else changes.\<close>

lemma switchType_overwrite:
  assumes ty: "Type act = ''create'' \<or> Type act = ''update''" and nr: "t \<noteq> [''/'']"
    and l: "os_Lstat (disk w) t = Inr (RegularFile c)"
  shows "switchType act t w =
      (w\<lparr>calls := calls w @ [CallMkdirAll (Dir t), CallWriteFile t (Content act)],
         disk := AList.update t (RegularFile (Content act)) (disk w),
         logs := logs w @ [LogWrote (Type act) t (Path act)]\<rparr>, None)"
proof -
  from os_Lstat_parent [OF l] have "os_MkdirAll (disk w) (butlast t) = (disk w, None)"
    by (rule os_MkdirAll_found)
  with ty nr l show ?thesis
    by (simp add: switchType_write Dir_butlast Let_def os_WriteFile_def)
qed

text \<open>The target is a directory: \<^verbatim>\<open>WriteFile\<close> fails, and the disk is as before.\<close>

lemma switchType_write_on_directory:
  assumes ty: "Type act = ''create'' \<or> Type act = ''update''"
    and l: "os_Lstat (disk w) t = Inr Directory"
  shows "switchType act t w =
      (w\<lparr>calls := calls w @ [CallMkdirAll (Dir t), CallWriteFile t (Content act)]\<rparr>, Some EISDIR)"
proof -
  have "os_Lstat (disk w) (Dir t) = Inr Directory"
    using l os_Lstat_parent [OF l] by (cases "t = [''/'']") (simp_all add: Dir_def)
  then have "os_MkdirAll (disk w) (Dir t) = (disk w, None)"
    by (rule os_MkdirAll_found)
  with ty l show ?thesis
    by (simp add: switchType_write Let_def os_WriteFile_def)
qed

text \<open>All of it, for a run of the switch on a world with the disk and the calls of \<open>w\<close>.\<close>

lemma switchType_write_outcome:
  assumes ty: "Type act = ''create'' \<or> Type act = ''update''" and nr: "t \<noteq> [''/'']"
    and d: "disk w1 = disk w" and k: "calls w1 = calls w" and r: "r = switchType act t w1"
  shows "(snd r = None \<longleftrightarrow>
            names_valid t \<and> \<not> list_ex (is_file (disk w)) (ancestors t)
            \<and> stat (disk w) t \<noteq> Some Directory)
       \<and> (snd r = None \<longrightarrow>
            os_Lstat (disk (fst r)) t = Inr (RegularFile (Content act))
            \<and> list_all (\<lambda>a. os_Lstat (disk (fst r)) a = Inr Directory) (ancestors t)
            \<and> calls (fst r) = calls w @ [CallMkdirAll (Dir t), CallWriteFile t (Content act)]
            \<and> last (logs (fst r)) = LogWrote (Type act) t (Path act))
       \<and> (q \<noteq> t \<and> map_of (disk w) q = Some n \<longrightarrow> map_of (disk (fst r)) q = Some n)
       \<and> (\<not> prefix q t \<longrightarrow> map_of (disk (fst r)) q = map_of (disk w) q)
       \<and> (os_Lstat (disk w) t = Inr (RegularFile c) \<longrightarrow>
            snd r = None \<and> disk (fst r) = AList.update t (RegularFile (Content act)) (disk w))
       \<and> (os_Lstat (disk w) t = Inr Directory \<longrightarrow> snd r = Some EISDIR \<and> disk (fst r) = disk w)"
proof (intro conjI impI)
  show "snd r = None \<longleftrightarrow>
            names_valid t \<and> \<not> list_ex (is_file (disk w)) (ancestors t)
            \<and> stat (disk w) t \<noteq> Some Directory"
    using switchType_write_ok_iff [OF ty nr, of w1] by (simp add: r d)
next
  assume "snd r = None"
  then have ok: "snd (switchType act t w1) = None" by (simp add: r)
  note res = switchType_write_result [OF ty ok]
  from res(1) show "os_Lstat (disk (fst r)) t = Inr (RegularFile (Content act))"
    by (simp add: r)
  from res(2) show "list_all (\<lambda>a. os_Lstat (disk (fst r)) a = Inr Directory) (ancestors t)"
    by (simp add: r)
  from res(3) show "calls (fst r) = calls w @ [CallMkdirAll (Dir t), CallWriteFile t (Content act)]"
    by (simp add: r k)
  from res(4) show "last (logs (fst r)) = LogWrote (Type act) t (Path act)"
    by (simp add: r)
next
  assume "q \<noteq> t \<and> map_of (disk w) q = Some n"
  then show "map_of (disk (fst r)) q = Some n"
    using switchType_write_keeps [OF ty, of q t w1 n] by (simp add: r d)
next
  assume "\<not> prefix q t"
  then show "map_of (disk (fst r)) q = map_of (disk w) q"
    using switchType_frame [of act t w1 "fst r" "snd r" q] by (simp add: r d)
next
  assume "os_Lstat (disk w) t = Inr (RegularFile c)"
  then have sw: "switchType act t w1 =
      (w1\<lparr>calls := calls w1 @ [CallMkdirAll (Dir t), CallWriteFile t (Content act)],
         disk := AList.update t (RegularFile (Content act)) (disk w1),
         logs := logs w1 @ [LogWrote (Type act) t (Path act)]\<rparr>, None)"
    using switchType_overwrite [OF ty nr, of w1 c] by (simp add: d)
  from sw show "snd r = None" by (simp add: r)
  from sw show "disk (fst r) = AList.update t (RegularFile (Content act)) (disk w)"
    by (simp add: r d)
next
  assume "os_Lstat (disk w) t = Inr Directory"
  then have sw: "switchType act t w1 =
      (w1\<lparr>calls := calls w1 @ [CallMkdirAll (Dir t), CallWriteFile t (Content act)]\<rparr>, Some EISDIR)"
    using switchType_write_on_directory [OF ty, of w1 t] by (simp add: d)
  from sw show "snd r = Some EISDIR" by (simp add: r)
  from sw show "disk (fst r) = disk w" by (simp add: r d)
qed

text \<open>
  Claim C10, as amended. In both listings \<^verbatim>\<open>create\<close> and \<^verbatim>\<open>update\<close> are one case of the switch: two
  actions with the same path and content, one of each type, leave the same disk, make the
  same calls and return the same error. An action of either type that is not skipped,
  with the target \<open>t\<close>, returns no error exactly when the system accepts the names of \<open>t\<close>,
  no regular file is above \<open>t\<close> and \<open>t\<close> is not a directory. Then \<^verbatim>\<open>MkdirAll\<close> and
  \<^verbatim>\<open>WriteFile\<close> have been called, \<open>t\<close> is a regular file with the new content and every
  directory above it exists. Whatever the outcome, every other entry of the table is kept,
  and a path that is neither \<open>t\<close> nor above it is as before. A target that is a regular
  file is overwritten and nothing else changes; a target that is a directory makes the
  action fail with \<open>EISDIR\<close>.
\<close>

theorem create_and_update_write_the_file:
  "(Path a1 = Path a2 \<and> Content a1 = Content a2 \<and> Type a1 = ''create'' \<and> Type a2 = ''update'' \<longrightarrow>
      same_effect (applyEdits_body np a1 w) (applyEdits_body np a2 w)
      \<and> same_effect (applyEdits_main_body a1 w) (applyEdits_main_body a2 w))
   \<and> ((Type act = ''create'' \<or> Type act = ''update'')
       \<and> \<not> Contains (np (Path act)) ''SidePanel''
       \<and> \<not> Contains (np (Path act)) ''..'' \<and> \<not> HasPrefix (np (Path act)) ''/''
       \<and> t = Join [projectRoot, TrimPrefix (np (Path act)) ''src/'']
       \<and> r = applyEdits_body np act w \<longrightarrow>
      (snd r = None \<longleftrightarrow>
         names_valid t \<and> \<not> list_ex (is_file (disk w)) (ancestors t)
         \<and> stat (disk w) t \<noteq> Some Directory)
      \<and> (snd r = None \<longrightarrow>
           os_Lstat (disk (fst r)) t = Inr (RegularFile (Content act))
           \<and> list_all (\<lambda>a. os_Lstat (disk (fst r)) a = Inr Directory) (ancestors t)
           \<and> calls (fst r) = calls w @ [CallMkdirAll (Dir t), CallWriteFile t (Content act)]
           \<and> last (logs (fst r)) = LogWrote (Type act) t (Path act))
      \<and> (q \<noteq> t \<and> map_of (disk w) q = Some n \<longrightarrow> map_of (disk (fst r)) q = Some n)
      \<and> (\<not> prefix q t \<longrightarrow> map_of (disk (fst r)) q = map_of (disk w) q)
      \<and> (os_Lstat (disk w) t = Inr (RegularFile c) \<longrightarrow>
           snd r = None \<and> disk (fst r) = AList.update t (RegularFile (Content act)) (disk w))
      \<and> (os_Lstat (disk w) t = Inr Directory \<longrightarrow> snd r = Some EISDIR \<and> disk (fst r) = disk w))
   \<and> ((Type act = ''create'' \<or> Type act = ''update'')
       \<and> \<not> Contains (Path act) ''SidePanel''
       \<and> t = Join [projectRoot, Path act]
       \<and> r = applyEdits_main_body act w \<longrightarrow>
      (snd r = None \<longleftrightarrow>
         names_valid t \<and> \<not> list_ex (is_file (disk w)) (ancestors t)
         \<and> stat (disk w) t \<noteq> Some Directory)
      \<and> (snd r = None \<longrightarrow>
           os_Lstat (disk (fst r)) t = Inr (RegularFile (Content act))
           \<and> list_all (\<lambda>a. os_Lstat (disk (fst r)) a = Inr Directory) (ancestors t)
           \<and> calls (fst r) = calls w @ [CallMkdirAll (Dir t), CallWriteFile t (Content act)]
           \<and> last (logs (fst r)) = LogWrote (Type act) t (Path act))
      \<and> (q \<noteq> t \<and> map_of (disk w) q = Some n \<longrightarrow> map_of (disk (fst r)) q = Some n)
      \<and> (\<not> prefix q t \<longrightarrow> map_of (disk (fst r)) q = map_of (disk w) q)
      \<and> (os_Lstat (disk w) t = Inr (RegularFile c) \<longrightarrow>
           snd r = None \<and> disk (fst r) = AList.update t (RegularFile (Content act)) (disk w))
      \<and> (os_Lstat (disk w) t = Inr Directory \<longrightarrow> snd r = Some EISDIR \<and> disk (fst r) = disk w))"
proof (intro conjI)
  show "Path a1 = Path a2 \<and> Content a1 = Content a2 \<and> Type a1 = ''create'' \<and> Type a2 = ''update'' \<longrightarrow>
      same_effect (applyEdits_body np a1 w) (applyEdits_body np a2 w)
      \<and> same_effect (applyEdits_main_body a1 w) (applyEdits_main_body a2 w)"
  proof (intro impI conjI)
    assume h: "Path a1 = Path a2 \<and> Content a1 = Content a2 \<and> Type a1 = ''create'' \<and> Type a2 = ''update''"
    then have sw: "same_effect (switchType a1 t w0) (switchType a2 t w0)" for t w0
      by (simp add: switchType_create_update)
    from h sw show "same_effect (applyEdits_body np a1 w) (applyEdits_body np a2 w)"
      by (simp add: applyEdits_body_def Let_def) (simp add: same_effect_def log_Printf_def)
    from h sw show "same_effect (applyEdits_main_body a1 w) (applyEdits_main_body a2 w)"
      by (simp add: applyEdits_main_body_def) (simp add: same_effect_def log_Printf_def)
  qed
next
  show "(Type act = ''create'' \<or> Type act = ''update'')
       \<and> \<not> Contains (np (Path act)) ''SidePanel''
       \<and> \<not> Contains (np (Path act)) ''..'' \<and> \<not> HasPrefix (np (Path act)) ''/''
       \<and> t = Join [projectRoot, TrimPrefix (np (Path act)) ''src/'']
       \<and> r = applyEdits_body np act w \<longrightarrow>
      (snd r = None \<longleftrightarrow>
         names_valid t \<and> \<not> list_ex (is_file (disk w)) (ancestors t)
         \<and> stat (disk w) t \<noteq> Some Directory)
      \<and> (snd r = None \<longrightarrow>
           os_Lstat (disk (fst r)) t = Inr (RegularFile (Content act))
           \<and> list_all (\<lambda>a. os_Lstat (disk (fst r)) a = Inr Directory) (ancestors t)
           \<and> calls (fst r) = calls w @ [CallMkdirAll (Dir t), CallWriteFile t (Content act)]
           \<and> last (logs (fst r)) = LogWrote (Type act) t (Path act))
      \<and> (q \<noteq> t \<and> map_of (disk w) q = Some n \<longrightarrow> map_of (disk (fst r)) q = Some n)
      \<and> (\<not> prefix q t \<longrightarrow> map_of (disk (fst r)) q = map_of (disk w) q)
      \<and> (os_Lstat (disk w) t = Inr (RegularFile c) \<longrightarrow>
           snd r = None \<and> disk (fst r) = AList.update t (RegularFile (Content act)) (disk w))
      \<and> (os_Lstat (disk w) t = Inr Directory \<longrightarrow> snd r = Some EISDIR \<and> disk (fst r) = disk w)"
  proof (rule impI)
    assume h: "(Type act = ''create'' \<or> Type act = ''update'')
       \<and> \<not> Contains (np (Path act)) ''SidePanel''
       \<and> \<not> Contains (np (Path act)) ''..'' \<and> \<not> HasPrefix (np (Path act)) ''/''
       \<and> t = Join [projectRoot, TrimPrefix (np (Path act)) ''src/'']
       \<and> r = applyEdits_body np act w"
    let ?w1 = "if np (Path act) \<noteq> Path act
               then log_Printf (LogNormalized (Path act) (np (Path act))) w else w"
    from h have ty: "Type act = ''create'' \<or> Type act = ''update''" by simp
    from h have nr: "t \<noteq> [''/'']" by (simp add: Join_projectRoot_ne)
    have d: "disk ?w1 = disk w" and k: "calls ?w1 = calls w"
      by (simp_all add: log_Printf_def)
    from h have r: "r = switchType act t ?w1"
      by (simp add: applyEdits_body_def Let_def)
    from ty nr d k r show "(snd r = None \<longleftrightarrow>
         names_valid t \<and> \<not> list_ex (is_file (disk w)) (ancestors t)
         \<and> stat (disk w) t \<noteq> Some Directory)
      \<and> (snd r = None \<longrightarrow>
           os_Lstat (disk (fst r)) t = Inr (RegularFile (Content act))
           \<and> list_all (\<lambda>a. os_Lstat (disk (fst r)) a = Inr Directory) (ancestors t)
           \<and> calls (fst r) = calls w @ [CallMkdirAll (Dir t), CallWriteFile t (Content act)]
           \<and> last (logs (fst r)) = LogWrote (Type act) t (Path act))
      \<and> (q \<noteq> t \<and> map_of (disk w) q = Some n \<longrightarrow> map_of (disk (fst r)) q = Some n)
      \<and> (\<not> prefix q t \<longrightarrow> map_of (disk (fst r)) q = map_of (disk w) q)
      \<and> (os_Lstat (disk w) t = Inr (RegularFile c) \<longrightarrow>
           snd r = None \<and> disk (fst r) = AList.update t (RegularFile (Content act)) (disk w))
      \<and> (os_Lstat (disk w) t = Inr Directory \<longrightarrow> snd r = Some EISDIR \<and> disk (fst r) = disk w)"
      by (rule switchType_write_outcome)
  qed
next
  show "(Type act = ''create'' \<or> Type act = ''update'')
       \<and> \<not> Contains (Path act) ''SidePanel''
       \<and> t = Join [projectRoot, Path act]
       \<and> r = applyEdits_main_body act w \<longrightarrow>
      (snd r = None \<longleftrightarrow>
         names_valid t \<and> \<not> list_ex (is_file (disk w)) (ancestors t)
         \<and> stat (disk w) t \<noteq> Some Directory)
      \<and> (snd r = None \<longrightarrow>
           os_Lstat (disk (fst r)) t = Inr (RegularFile (Content act))
           \<and> list_all (\<lambda>a. os_Lstat (disk (fst r)) a = Inr Directory) (ancestors t)
           \<and> calls (fst r) = calls w @ [CallMkdirAll (Dir t), CallWriteFile t (Content act)]
           \<and> last (logs (fst r)) = LogWrote (Type act) t (Path act))
      \<and> (q \<noteq> t \<and> map_of (disk w) q = Some n \<longrightarrow> map_of (disk (fst r)) q = Some n)
      \<and> (\<not> prefix q t \<longrightarrow> map_of (disk (fst r)) q = map_of (disk w) q)
      \<and> (os_Lstat (disk w) t = Inr (RegularFile c) \<longrightarrow>
           snd r = None \<and> disk (fst r) = AList.update t (RegularFile (Content act)) (disk w))
      \<and> (os_Lstat (disk w) t = Inr Directory \<longrightarrow> snd r = Some EISDIR \<and> disk (fst r) = disk w)"
  proof (rule impI)
    assume h: "(Type act = ''create'' \<or> Type act = ''update'')
       \<and> \<not> Contains (Path act) ''SidePanel''
       \<and> t = Join [projectRoot, Path act]
       \<and> r = applyEdits_main_body act w"
    from h have ty: "Type act = ''create'' \<or> Type act = ''update''" by simp
    from h have nr: "t \<noteq> [''/'']" by (simp add: Join_projectRoot_ne)
    from h have r: "r = switchType act t w"
      by (simp add: applyEdits_main_body_def)
    from ty nr refl refl r show "(snd r = None \<longleftrightarrow>
         names_valid t \<and> \<not> list_ex (is_file (disk w)) (ancestors t)
         \<and> stat (disk w) t \<noteq> Some Directory)
      \<and> (snd r = None \<longrightarrow>
           os_Lstat (disk (fst r)) t = Inr (RegularFile (Content act))
           \<and> list_all (\<lambda>a. os_Lstat (disk (fst r)) a = Inr Directory) (ancestors t)
           \<and> calls (fst r) = calls w @ [CallMkdirAll (Dir t), CallWriteFile t (Content act)]
           \<and> last (logs (fst r)) = LogWrote (Type act) t (Path act))
      \<and> (q \<noteq> t \<and> map_of (disk w) q = Some n \<longrightarrow> map_of (disk (fst r)) q = Some n)
      \<and> (\<not> prefix q t \<longrightarrow> map_of (disk (fst r)) q = map_of (disk w) q)
      \<and> (os_Lstat (disk w) t = Inr (RegularFile c) \<longrightarrow>
           snd r = None \<and> disk (fst r) = AList.update t (RegularFile (Content act)) (disk w))
      \<and> (os_Lstat (disk w) t = Inr Directory \<longrightarrow> snd r = Some EISDIR \<and> disk (fst r) = disk w)"
      by (rule switchType_write_outcome)
  qed
qed

text \<open>
  On the sample project: \<open>App.tsx\<close> exists and is overwritten by either type, and nothing
  else changes; \<open>pages/Home.tsx\<close> is missing, as is its directory, and an update creates
  both and keeps the protected file.
\<close>

theorem create_and_update_write_the_file_witness:
  "same_effect
     (applyEdits_body (\<lambda>p. p) \<lparr>Type = ''create'', Path = ''src/App.tsx'', Content = ''new''\<rparr> sample_world)
     (applyEdits_body (\<lambda>p. p) \<lparr>Type = ''update'', Path = ''src/App.tsx'', Content = ''new''\<rparr> sample_world)
   \<and> same_effect
     (applyEdits_main_body \<lparr>Type = ''create'', Path = ''src/App.tsx'', Content = ''new''\<rparr> sample_world)
     (applyEdits_main_body \<lparr>Type = ''update'', Path = ''src/App.tsx'', Content = ''new''\<rparr> sample_world)
   \<and> stat (disk sample_world) [''..'', ''frontend'', ''src'', ''pages''] = None
   \<and> snd (applyEdits_body (\<lambda>p. p)
         \<lparr>Type = ''update'', Path = ''src/pages/Home.tsx'', Content = ''home''\<rparr> sample_world) = None
   \<and> os_Lstat (disk (fst (applyEdits_body (\<lambda>p. p)
         \<lparr>Type = ''update'', Path = ''src/pages/Home.tsx'', Content = ''home''\<rparr> sample_world)))
        [''..'', ''frontend'', ''src'', ''pages'', ''Home.tsx''] = Inr (RegularFile ''home'')
   \<and> list_all (\<lambda>a. os_Lstat (disk (fst (applyEdits_body (\<lambda>p. p)
         \<lparr>Type = ''update'', Path = ''src/pages/Home.tsx'', Content = ''home''\<rparr> sample_world))) a
           = Inr Directory)
        (ancestors [''..'', ''frontend'', ''src'', ''pages'', ''Home.tsx''])
   \<and> map_of (disk (fst (applyEdits_body (\<lambda>p. p)
         \<lparr>Type = ''update'', Path = ''src/pages/Home.tsx'', Content = ''home''\<rparr> sample_world)))
        sidepanel_file = Some (RegularFile ''panel'')
   \<and> os_Lstat (disk sample_world) [''..'', ''frontend'', ''src'', ''App.tsx''] = Inr (RegularFile ''app'')
   \<and> snd (applyEdits_main_body
         \<lparr>Type = ''create'', Path = ''App.tsx'', Content = ''new''\<rparr> sample_world) = None
   \<and> disk (fst (applyEdits_main_body
         \<lparr>Type = ''create'', Path = ''App.tsx'', Content = ''new''\<rparr> sample_world))
       = AList.update [''..'', ''frontend'', ''src'', ''App.tsx''] (RegularFile ''new'') sample_disk"
proof -
  let ?u = "\<lparr>Type = ''update'', Path = ''src/pages/Home.tsx'', Content = ''home''\<rparr>"
  let ?c = "\<lparr>Type = ''create'', Path = ''App.tsx'', Content = ''new''\<rparr>"
  let ?t = "[''..'', ''frontend'', ''src'', ''pages'', ''Home.tsx'']"
  let ?a = "[''..'', ''frontend'', ''src'', ''App.tsx'']"
  have g: "\<not> Contains ''src/pages/Home.tsx'' ''SidePanel''" "\<not> Contains ''src/pages/Home.tsx'' ''..''"
    "\<not> HasPrefix ''src/pages/Home.tsx'' ''/''" "\<not> Contains ''App.tsx'' ''SidePanel''"
    by (simp_all add: Contains_def HasPrefix_def)
  have j: "?t = Join [projectRoot, TrimPrefix ''src/pages/Home.tsx'' ''src/'']"
    by (simp add: Join_projectRoot TrimPrefix_def HasPrefix_def)
  have j2: "?a = Join [projectRoot, ''App.tsx'']"
    by (simp add: Join_projectRoot)
  have free: "names_valid ?t" "\<not> list_ex (is_file (disk sample_world)) (ancestors ?t)"
    "stat (disk sample_world) ?t \<noteq> Some Directory"
    by code_simp+
  have before: "stat (disk sample_world) [''..'', ''frontend'', ''src'', ''pages''] = None"
    by code_simp
  have there: "os_Lstat (disk sample_world) ?a = Inr (RegularFile ''app'')"
    by code_simp
  have sp: "sidepanel_file \<noteq> ?t" "map_of (disk sample_world) sidepanel_file = Some (RegularFile ''panel'')"
    by (simp_all add: sidepanel_file_def sample_world_def sample_disk_def)
  have d: "disk sample_world = sample_disk"
    by (simp add: sample_world_def)
  note one = create_and_update_write_the_file
      [where ?a1.0 = "\<lparr>Type = ''create'', Path = ''src/App.tsx'', Content = ''new''\<rparr>"
         and ?a2.0 = "\<lparr>Type = ''update'', Path = ''src/App.tsx'', Content = ''new''\<rparr>"
         and np = "\<lambda>p. p" and w = sample_world and act = ?u and t = ?t
         and r = "applyEdits_body (\<lambda>p. p) ?u sample_world"
         and q = sidepanel_file and n = "RegularFile ''panel''" and c = "''app''"]
  note two = create_and_update_write_the_file
      [where ?a1.0 = "\<lparr>Type = ''create'', Path = ''src/App.tsx'', Content = ''new''\<rparr>"
         and ?a2.0 = "\<lparr>Type = ''update'', Path = ''src/App.tsx'', Content = ''new''\<rparr>"
         and np = "\<lambda>p. p" and w = sample_world and act = ?c and t = ?a
         and r = "applyEdits_main_body ?c sample_world"
         and q = sidepanel_file and n = "RegularFile ''panel''" and c = "''app''"]
  from one g j free sp have
    "snd (applyEdits_body (\<lambda>p. p) ?u sample_world) = None"
    "os_Lstat (disk (fst (applyEdits_body (\<lambda>p. p) ?u sample_world))) ?t = Inr (RegularFile ''home'')"
    "list_all (\<lambda>a. os_Lstat (disk (fst (applyEdits_body (\<lambda>p. p) ?u sample_world))) a = Inr Directory)
        (ancestors ?t)"
    "map_of (disk (fst (applyEdits_body (\<lambda>p. p) ?u sample_world))) sidepanel_file
       = Some (RegularFile ''panel'')"
    by simp_all
  moreover from two g j2 there d have
    "snd (applyEdits_main_body ?c sample_world) = None"
    "disk (fst (applyEdits_main_body ?c sample_world))
       = AList.update ?a (RegularFile ''new'') sample_disk"
    by simp_all
  moreover from one have
    "same_effect
       (applyEdits_body (\<lambda>p. p) \<lparr>Type = ''create'', Path = ''src/App.tsx'', Content = ''new''\<rparr> sample_world)
       (applyEdits_body (\<lambda>p. p) \<lparr>Type = ''update'', Path = ''src/App.tsx'', Content = ''new''\<rparr> sample_world)"
    "same_effect
       (applyEdits_main_body \<lparr>Type = ''create'', Path = ''src/App.tsx'', Content = ''new''\<rparr> sample_world)
       (applyEdits_main_body \<lparr>Type = ''update'', Path = ''src/App.tsx'', Content = ''new''\<rparr> sample_world)"
    by simp_all
  ultimately show ?thesis
    using before there by simp
qed

text \<open>
  The claim as stated fails when the target exists as a directory. On the sample project
  \<open>components\<close> is a directory: a create or an update of that path fails with \<open>EISDIR\<close> in
  both listings, and the same create returns no error on the project without that
  directory.
\<close>

theorem create_on_a_directory_fails:
  "os_Lstat (disk sample_world) [''..'', ''frontend'', ''src'', ''components''] = Inr Directory
   \<and> Join [projectRoot, TrimPrefix ''src/components'' ''src/''] = [''..'', ''frontend'', ''src'', ''components'']
   \<and> snd (applyEdits_body (\<lambda>p. p)
         \<lparr>Type = ''create'', Path = ''src/components'', Content = ''x''\<rparr> sample_world) = Some EISDIR
   \<and> snd (applyEdits_body (\<lambda>p. p)
         \<lparr>Type = ''update'', Path = ''src/components'', Content = ''x''\<rparr> sample_world) = Some EISDIR
   \<and> snd (applyEdits_main_body
         \<lparr>Type = ''create'', Path = ''components'', Content = ''x''\<rparr> sample_world) = Some EISDIR
   \<and> snd (applyEdits_main_body
         \<lparr>Type = ''create'', Path = ''components'', Content = ''x''\<rparr>
         \<lparr>disk = [([''..''], Directory), ([''..'', ''frontend''], Directory),
                  ([''..'', ''frontend'', ''src''], Directory)],
          calls = [], logs = []\<rparr>) = None"
  by code_simp

section \<open>Deleting a file that is not there\<close>






section \<open>One action after the other\<close>






section \<open>A path with the root folder name in front\<close>

lemma normalizePath_spec_keep:
  "\<not> HasPrefix p ''src/src/'' \<Longrightarrow> normalizePath_spec p = p"
  by (subst normalizePath_spec.simps) simp

lemma normalizePath_spec_drop:
  "HasPrefix p ''src/src/'' \<Longrightarrow> normalizePath_spec p = normalizePath_spec (drop 4 p)"
  by (subst normalizePath_spec.simps) simp

lemma normalizePath_spec_src:
  "normalizePath_spec (''src/'' @ P) =
     (if HasPrefix P ''src/'' then normalizePath_spec P else ''src/'' @ P)"
proof (cases "HasPrefix P ''src/''")
  case True
  then have "HasPrefix (''src/'' @ P) ''src/src/''"
    by (auto simp: HasPrefix_def prefix_def)
  then show ?thesis
    using True by (simp add: normalizePath_spec_drop)
next
  case False
  then have "\<not> HasPrefix (''src/'' @ P) ''src/src/''"
    by (auto simp: HasPrefix_def prefix_def)
  then show ?thesis
    using False by (simp add: normalizePath_spec_keep)
qed

lemma normalizePath_spec_shape:
  "normalizePath_spec p = p \<or> HasPrefix (normalizePath_spec p) ''src/''"
proof (induction p rule: normalizePath_spec.induct)
  case (1 p)
  show ?case
  proof (cases "HasPrefix p ''src/src/''")
    case False
    then show ?thesis by (simp add: normalizePath_spec_keep)
  next
    case True
    then have "HasPrefix (drop 4 p) ''src/''"
      by (auto simp: HasPrefix_def prefix_def)
    with "1.IH" [OF True] have "HasPrefix (normalizePath_spec (drop 4 p)) ''src/''"
      by auto
    with True show ?thesis by (simp add: normalizePath_spec_drop)
  qed
qed

lemma normalizePath_spec_sublist: "sublist (normalizePath_spec p) p"
proof (induction p rule: normalizePath_spec.induct)
  case (1 p)
  show ?case
  proof (cases "HasPrefix p ''src/src/''")
    case False
    then show ?thesis by (simp add: normalizePath_spec_keep)
  next
    case True
    with "1.IH" have "sublist (normalizePath_spec (drop 4 p)) (drop 4 p)" by simp
    then have "sublist (normalizePath_spec (drop 4 p)) p"
      using sublist_drop [of 4 p] sublist_order.order_trans by blast
    with True show ?thesis by (simp add: normalizePath_spec_drop)
  qed
qed

lemma TrimPrefix_normalizePath_spec_src:
  "TrimPrefix (normalizePath_spec (''src/'' @ P)) ''src/'' = TrimPrefix (normalizePath_spec P) ''src/''"
proof (cases "HasPrefix P ''src/''")
  case True
  then show ?thesis by (simp only: normalizePath_spec_src if_True)
next
  case False
  then have "\<not> HasPrefix P ''src/src/''"
    by (auto simp: HasPrefix_def prefix_def)
  then have keep: "normalizePath_spec P = P" by (rule normalizePath_spec_keep)
  have "TrimPrefix (''src/'' @ P) ''src/'' = P"
    by (simp add: TrimPrefix_def HasPrefix_def)
  moreover have "TrimPrefix P ''src/'' = P"
    using False by (simp add: TrimPrefix_def)
  ultimately show ?thesis
    using False by (simp only: normalizePath_spec_src keep if_False)
qed

lemma switchType_same:
  assumes "Type a1 = Type a2" and "Content a1 = Content a2"
    and "disk w1 = disk w2" and "calls w1 = calls w2"
  shows "same_effect (switchType a1 t w1) (switchType a2 t w2)"
  using assms
  by (auto simp: same_effect_def switchType_def MkdirAll_eq WriteFile_def Remove_def
        log_Printf_def Let_def split: sum.splits option.splits)

text \<open>
  Claim C8, on the modelled \<^verbatim>\<open>normalizePath\<close>. For a relative path \<open>P\<close> with neither \<open>..\<close> nor
  \<open>SidePanel\<close> in it, an action with the path \<open>src/P\<close> and an action with the path \<open>P\<close>
  are both carried out (neither is skipped), on the same target under the project root,
  and with the same type and content they leave the same disk, make the same calls and
  return the same error.
\<close>

theorem duplicated_prefix_same_target:
  assumes rel: "\<not> HasPrefix P ''/''" and nd: "\<not> Contains P ''..''"
    and np: "\<not> Contains P ''SidePanel''"
    and p1: "Path a1 = ''src/'' @ P" and p2: "Path a2 = P"
    and ty: "Type a1 = Type a2" and co: "Content a1 = Content a2"
  shows "Join [projectRoot, TrimPrefix (normalizePath_spec (Path a1)) ''src/'']
           = Join [projectRoot, TrimPrefix (normalizePath_spec (Path a2)) ''src/'']
       \<and> same_effect (applyEdits_body normalizePath_spec a1 w)
                       (applyEdits_body normalizePath_spec a2 w)
       \<and> same_effect (applyEdits_body normalizePath_spec a2 w)
            (switchType a2 (Join [projectRoot, TrimPrefix (normalizePath_spec P) ''src/'']) w)"
proof -
  let ?n1 = "normalizePath_spec (''src/'' @ P)" and ?n2 = "normalizePath_spec P"
  let ?t = "Join [projectRoot, TrimPrefix ?n2 ''src/'']"
  have t: "TrimPrefix ?n1 ''src/'' = TrimPrefix ?n2 ''src/''"
    by (rule TrimPrefix_normalizePath_spec_src)
  have s2: "\<not> Contains ?n2 ''SidePanel''" "\<not> Contains ?n2 ''..''"
    using np nd normalizePath_spec_sublist [of P] Contains_trans by blast+
  have h2: "\<not> HasPrefix ?n2 ''/''"
    using rel normalizePath_spec_shape [of P] by (auto simp: HasPrefix_def prefix_def)
  have sub1: "sublist ?n1 (''src/'' @ P)" by (rule normalizePath_spec_sublist)
  have "\<not> Contains (''src/'' @ P) ''SidePanel''" "\<not> Contains (''src/'' @ P) ''..''"
    using np nd by (simp_all add: Contains_Cons)
  then have s1: "\<not> Contains ?n1 ''SidePanel''" "\<not> Contains ?n1 ''..''"
    using sub1 Contains_trans by blast+
  have h1: "\<not> HasPrefix ?n1 ''/''"
    using normalizePath_spec_shape [of "''src/'' @ P"] by (auto simp: HasPrefix_def prefix_def)
  have b1: "\<exists>w1. applyEdits_body normalizePath_spec a1 w = switchType a1 ?t w1
                  \<and> disk w1 = disk w \<and> calls w1 = calls w"
    using s1 h1 t p1 by (auto simp: applyEdits_body_def Let_def log_Printf_def)
  have b2: "\<exists>w2. applyEdits_body normalizePath_spec a2 w = switchType a2 ?t w2
                  \<and> disk w2 = disk w \<and> calls w2 = calls w"
    using s2 h2 p2 by (auto simp: applyEdits_body_def Let_def log_Printf_def)
  from b1 b2 ty co have "same_effect (applyEdits_body normalizePath_spec a1 w)
                       (applyEdits_body normalizePath_spec a2 w)"
    by (auto simp: switchType_same)
  moreover from b2 have "same_effect (applyEdits_body normalizePath_spec a2 w) (switchType a2 ?t w)"
    by (auto simp: switchType_same)
  ultimately show ?thesis
    using t p1 p2 by simp
qed

text \<open>
  \<open>src/src/App.tsx\<close> and \<open>src/App.tsx\<close> both name \<open>App.tsx\<close> in the project root, and so do
  \<open>src/App.tsx\<close> and \<open>App.tsx\<close>.
\<close>

theorem duplicated_prefix_same_target_witness:
  "\<not> HasPrefix ''src/App.tsx'' ''/''
   \<and> \<not> Contains ''src/App.tsx'' ''..''
   \<and> \<not> Contains ''src/App.tsx'' ''SidePanel''
   \<and> Join [projectRoot, TrimPrefix (normalizePath_spec ''src/src/App.tsx'') ''src/'']
       = [''..'', ''frontend'', ''src'', ''App.tsx'']
   \<and> Join [projectRoot, TrimPrefix (normalizePath_spec ''src/App.tsx'') ''src/'']
       = [''..'', ''frontend'', ''src'', ''App.tsx'']
   \<and> Join [projectRoot, TrimPrefix (normalizePath_spec ''App.tsx'') ''src/'']
       = [''..'', ''frontend'', ''src'', ''App.tsx'']
   \<and> same_effect
        (applyEdits_body normalizePath_spec
           \<lparr>Type = ''update'', Path = ''src/src/App.tsx'', Content = ''new''\<rparr> sample_world)
        (applyEdits_body normalizePath_spec
           \<lparr>Type = ''update'', Path = ''src/App.tsx'', Content = ''new''\<rparr> sample_world)"
proof -
  have h: "\<not> HasPrefix ''src/App.tsx'' ''/''" "\<not> Contains ''src/App.tsx'' ''..''"
    "\<not> Contains ''src/App.tsx'' ''SidePanel''"
    by (simp_all add: HasPrefix_def Contains_def)
  have g: "\<not> HasPrefix ''App.tsx'' ''/''" "\<not> Contains ''App.tsx'' ''..''"
    "\<not> Contains ''App.tsx'' ''SidePanel''"
    by (simp_all add: HasPrefix_def Contains_def)
  have j: "Join [projectRoot, TrimPrefix (normalizePath_spec ''App.tsx'') ''src/'']
       = [''..'', ''frontend'', ''src'', ''App.tsx'']"
    by code_simp
  note one = duplicated_prefix_same_target
      [OF h, of "\<lparr>Type = ''update'', Path = ''src/src/App.tsx'', Content = ''new''\<rparr>"
              "\<lparr>Type = ''update'', Path = ''src/App.tsx'', Content = ''new''\<rparr>" sample_world]
  note two = duplicated_prefix_same_target
      [OF g, of "\<lparr>Type = ''update'', Path = ''src/App.tsx'', Content = ''new''\<rparr>"
              "\<lparr>Type = ''update'', Path = ''App.tsx'', Content = ''new''\<rparr>" sample_world]
  from one two j h show ?thesis
    by simp
qed

section \<open>Staying inside the project root\<close>

lemma inside_root_Dir:
  assumes "inside_root t"
  shows "inside_root (Dir t) \<or> Dir t = Dir (Clean projectRoot)"
proof -
  from assms obtain zs where t: "t = [''..'', ''frontend'', ''src''] @ zs"
    by (auto simp: inside_root_def Clean_projectRoot prefix_def)
  show ?thesis
  proof (cases "zs = []")
    case True
    with t show ?thesis by (simp add: Clean_projectRoot)
  next
    case False
    then have "butlast t = [''..'', ''frontend'', ''src''] @ butlast zs"
      by (simp add: t butlast_append)
    then show ?thesis
      by (simp add: t Dir_def inside_root_def Clean_projectRoot)
  qed
qed

lemma switchType_calls_inside:
  assumes "list_all call_inside_root (calls w)" and "inside_root t"
  shows "list_all call_inside_root (calls (fst (switchType act t w)))"
  using assms inside_root_Dir [OF assms(2)]
  by (auto simp: switchType_def MkdirAll_eq WriteFile_def Remove_def log_Printf_def Let_def
        split: sum.splits option.splits)

lemma Join_projectRoot_inside_root:
  "\<not> Contains x ''..'' \<Longrightarrow> inside_root (Join [projectRoot, x])"
  by (simp add: Join_projectRoot_inside inside_root_def Clean_projectRoot)

text \<open>
  In the listing with the check for dangerous paths, every call of the file system that
  \<^verbatim>\<open>applyEdits\<close> makes stays inside the project root, whatever \<^verbatim>\<open>normalizePath\<close> returns.
\<close>

lemma applyEdits_body_calls_inside:
  assumes "list_all call_inside_root (calls w)"
  shows "list_all call_inside_root (calls (fst (applyEdits_body np act w)))"
proof (cases "Contains (np (Path act)) ''SidePanel''
              \<or> Contains (np (Path act)) ''..'' \<or> HasPrefix (np (Path act)) ''/''")
  case True
  with assms show ?thesis
    by (auto simp: applyEdits_body_def Let_def log_Printf_def)
next
  case False
  then have "\<not> Contains (TrimPrefix (np (Path act)) ''src/'') ''..''"
    using Contains_TrimPrefix by blast
  then have ins: "inside_root (Join [projectRoot, TrimPrefix (np (Path act)) ''src/''])"
    by (rule Join_projectRoot_inside_root)
  have "list_all call_inside_root
               (calls (fst (switchType act (Join [projectRoot, TrimPrefix (np (Path act)) ''src/'']) w0)))"
    if "list_all call_inside_root (calls w0)" for w0
    using that ins by (rule switchType_calls_inside)
  with False assms show ?thesis
    by (simp add: applyEdits_body_def Let_def log_Printf_def)
qed

lemma applyEdits_calls_inside_root:
  assumes "list_all call_inside_root (calls w)"
  shows "list_all call_inside_root (calls (fst (applyEdits np edits w)))"
  unfolding applyEdits_def
  by (rule range_actions_keeps [where P = "\<lambda>w'. list_all call_inside_root (calls w')"])
     (simp_all add: applyEdits_body_calls_inside assms log_Printf_def)

text \<open>
  Claim C1, on \<^verbatim>\<open>applyEdits\<close> of the first listing of main.go, which has no check for
  dangerous paths: a create action with the path \<open>../../escape.txt\<close> is not skipped. The
  path is joined onto the project root and cleaned to \<open>../escape.txt\<close>, which is outside
  the root, and the file is written there.
\<close>

theorem applyEdits_main_writes_outside_root:
  "Contains ''../../escape.txt'' ''..''
   \<and> Join [projectRoot, ''../../escape.txt''] = [''..'', ''escape.txt'']
   \<and> \<not> inside_root [''..'', ''escape.txt'']
   \<and> applyEdits_main
        \<lparr>Actions = [\<lparr>Type = ''create'', Path = ''../../escape.txt'', Content = ''x''\<rparr>]\<rparr>
        \<lparr>disk = [], calls = [], logs = []\<rparr>
     = (\<lparr>disk = [([''..''], Directory), ([''..'', ''escape.txt''], RegularFile ''x'')],
         calls = [CallMkdirAll [''..''], CallWriteFile [''..'', ''escape.txt''] ''x''],
         logs = [LogApplying 1, LogWrote ''create'' [''..'', ''escape.txt''] ''../../escape.txt'']\<rparr>,
        None)"
  by code_simp

section \<open>The empty batch\<close>

text \<open>
  In the second listing of main.go an empty batch is an error: \<^verbatim>\<open>callOllama\<close> returns
  ``no actions returned by AI'', \<^verbatim>\<open>handleEdit\<close> answers 500 and \<^verbatim>\<open>applyEdits\<close> is not called.
\<close>

lemma handleEdit_main2_rejects_empty:
  assumes "Actions edits = []" and "reqMethod x = ''POST''" and "reqBody x = Inr req"
    and "contextJSON x = Inr ctx" and "upstream x = Inr edits"
  shows "handleEdit_main2 x w =
           (log_Printf LogNoActions (log_Printf (LogSuggested 0) w),
            HttpError 500 (Text ''no actions returned by AI''))"
  using assms by (simp add: handleEdit_main2_def callOllama_main2_def Let_def)

text \<open>
  Claim C5, on \<^verbatim>\<open>handleEdit\<close> of the listing with path normalization, which has no check
  for an empty batch: when the reply of the model is \<open>{"actions":[]}\<close> and decodes to no
  action, \<^verbatim>\<open>applyEdits\<close> is called on the empty batch (it logs ``Applying 0 edit actions'')
  and the response is a success with \<open>applied = 0\<close>.
\<close>

theorem handleEdit_empty_batch_succeeds:
  "handleEdit (\<lambda>p. p)
     (\<lambda>s. if s = ''{\"actions\":[]}'' then Inr \<lparr>Actions = []\<rparr> else Inl ''invalid character'')
     \<lparr>reqMethod = ''POST'',
      reqBody = Inr \<lparr>Instructions = ''tidy up'', Provider = ''openrouter'', Model = ''openai/gpt-4o''\<rparr>,
      contextJSON = Inr ''[]'', upstream = Inr ''{\"actions\":[]}''\<rparr>
     \<lparr>disk = [], calls = [], logs = []\<rparr>
   = (\<lparr>disk = [], calls = [], logs = [LogApplying 0]\<rparr>, Success 0)"
  by code_simp

end
